theory Spec2Isabelle
  imports Main "HOL-Library.Sublist" "HOL-Library.Multiset"
begin

section \<open>Data model of \<^verbatim>\<open>backend/routers/patients.py\<close>\<close>

text \<open>
  The router works on three tables through an SQLAlchemy session: \<^verbatim>\<open>Patient\<close>,
  \<^verbatim>\<open>Queue\<close> and \<^verbatim>\<open>PatientFlow\<close>. A table is a list of rows in rowid order, which is
  the order of creation. Clock readings (\<^verbatim>\<open>datetime.now()\<close>, \<^verbatim>\<open>datetime.utcnow()\<close>) are
  arguments of the operations. Role checks and websocket broadcasts do not touch
  the tables and are left out.
\<close>

type_synonym datetime = int

text \<open>
  Modelled from the spec: \<^verbatim>\<open>PatientStatus\<close> is declared in \<^verbatim>\<open>database_sqlite\<close>, which is
  not part of the sources. The router names the members PENDING, DILATED, REFERRED and
  COMPLETED; the spec says there are further, domain-specific members, which
  \<open>OTHER\<close> stands for (with the member's name).
\<close>

datatype PatientStatus = PENDING | DILATED | REFERRED | COMPLETED | OTHER string

text \<open>
  \<^verbatim>\<open>OPDType\<close> is declared in \<^verbatim>\<open>database_sqlite\<close> as well. It is a parameter here: the
  type variable \<open>'opd\<close> is the enumeration, and the operations that read
  \<^verbatim>\<open>opd.value\<close> take the function \<open>ov\<close> from a member to its string value.
\<close>

record 'opd Patient =
  p_id :: int
  token_number :: string
  name :: string
  age :: int
  phone :: "string option"
  registration_time :: datetime
  current_status :: PatientStatus
  allocated_opd :: "'opd option"
  current_room :: "string option"
  is_dilated :: bool
  dilation_time :: "datetime option"
  referred_from :: "string option"
  referred_to :: "string option"
  completed_at :: "datetime option"

text \<open>
  Of a queue entry the router writes the department, the patient, the position, the
  status and, on a status update, \<^verbatim>\<open>updated_at\<close>; \<open>None\<close> there stands for the value
  the column has before the first update. Keys and creation times that the database
  fills in by itself are left out of the rows of \<^verbatim>\<open>Queue\<close> and \<^verbatim>\<open>PatientFlow\<close>.
\<close>

record 'opd Queue =
  opd_type :: 'opd
  patient_id :: int
  position :: int
  q_status :: PatientStatus
  updated_at :: "datetime option"

record PatientFlow =
  f_patient_id :: int
  from_room :: "string option"
  to_room :: "string option"
  f_status :: PatientStatus
  f_notes :: "string option"

record 'opd database =
  patients :: "'opd Patient list"
  queues :: "'opd Queue list"
  flows :: "PatientFlow list"

definition empty_db :: "'opd database" where
  "empty_db = \<lparr>patients = [], queues = [], flows = []\<rparr>"

record PatientCreate =
  pc_name :: string
  pc_age :: int
  pc_phone :: "string option"

record ReferredPatientResponse =
  r_id :: int
  r_token_number :: string
  r_name :: string
  r_age :: int
  r_registration_time :: datetime
  from_opd :: "string option"
  to_opd :: "string option"

text \<open>\<^verbatim>\<open>HTTPException(404)\<close>, and the \<^verbatim>\<open>ValueError\<close> of \<^verbatim>\<open>int()\<close>.\<close>

datatype error = NotFound | ValueError

section \<open>Strings and numbers\<close>

definition is_digit :: "char \<Rightarrow> bool" where
  "is_digit c = (c \<in> set ''0123456789'')"

definition digit_char :: "nat \<Rightarrow> char" where
  "digit_char d = ''0123456789'' ! d"

definition digit_val :: "char \<Rightarrow> nat" where
  "digit_val c = length (takeWhile (\<lambda>d. d \<noteq> c) ''0123456789'')"

text \<open>The decimal digits of a natural number, most significant first (\<^verbatim>\<open>str(n)\<close>).\<close>

fun dec_digits :: "nat \<Rightarrow> string" where
  "dec_digits n =
     (if n < 10 then [digit_char n] else dec_digits (n div 10) @ [digit_char (n mod 10)])"

declare dec_digits.simps [simp del]

definition digits_val :: "string \<Rightarrow> nat" where
  "digits_val s = fold (\<lambda>c acc. acc * 10 + digit_val c) s 0"

definition zfill :: "nat \<Rightarrow> string \<Rightarrow> string" where
  "zfill w s = replicate (w - length s) (CHR ''0'') @ s"

text \<open>
  \<^verbatim>\<open>f"{n:04d}"\<close>: at least four characters, filled with zeros after the sign; a number of
  more than four digits is written in full.
\<close>

definition format_04d :: "int \<Rightarrow> string" where
  "format_04d n =
     (if n < 0 then CHR ''-'' # zfill 3 (dec_digits (nat (- n)))
      else zfill 4 (dec_digits (nat n)))"

text \<open>\<^verbatim>\<open>s.split(c)\<close> for a separator of one character: never empty.\<close>

fun split_char :: "char \<Rightarrow> string \<Rightarrow> string list" where
  "split_char c [] = [[]]"
| "split_char c (x # xs) =
     (if x = c then [] # split_char c xs
      else (case split_char c xs of
              [] \<Rightarrow> [[x]]
            | y # ys \<Rightarrow> (x # y) # ys))"

text \<open>
  \<^verbatim>\<open>int(s)\<close> on the ASCII strings: white space around the number is dropped (tab,
  line feed, vertical tab, form feed, carriage return and space), one sign may lead,
  and the digits may be grouped by single underscores. Anything else raises
  \<^verbatim>\<open>ValueError\<close>, here \<open>None\<close>.
\<close>

definition is_space :: "char \<Rightarrow> bool" where
  "is_space c = (c \<in> set [CHR 0x09, CHR 0x0A, CHR 0x0B, CHR 0x0C, CHR 0x0D, CHR 0x20])"

definition strip :: "string \<Rightarrow> string" where
  "strip s = rev (dropWhile is_space (rev (dropWhile is_space s)))"

fun grouped :: "string \<Rightarrow> bool" where
  "grouped [] = False"
| "grouped [c] = is_digit c"
| "grouped (c # d # r) =
     (is_digit c \<and> (if d = CHR ''_'' then grouped r else grouped (d # r)))"

definition int_body :: "string \<Rightarrow> int option" where
  "int_body u =
     (if grouped u then Some (int (digits_val (filter (\<lambda>c. c \<noteq> CHR ''_'') u))) else None)"

definition py_int :: "string \<Rightarrow> int option" where
  "py_int s =
     (case strip s of
        [] \<Rightarrow> None
      | c # r \<Rightarrow>
          if c = CHR ''-'' then map_option uminus (int_body r)
          else if c = CHR ''+'' then int_body r
          else int_body (c # r))"

section \<open>Queries\<close>

text \<open>\<^verbatim>\<open>query.filter(...).first()\<close>: the first row that matches, if any.\<close>

definition first :: "('a \<Rightarrow> bool) \<Rightarrow> 'a list \<Rightarrow> 'a option" where
  "first P xs = List.find P xs"

text \<open>
  Assigning to an attribute of the row that \<^verbatim>\<open>first()\<close> returned, then committing:
  that row is updated in place, its place in the table kept.
\<close>

fun update_first :: "('a \<Rightarrow> bool) \<Rightarrow> ('a \<Rightarrow> 'a) \<Rightarrow> 'a list \<Rightarrow> 'a list" where
  "update_first P f [] = []"
| "update_first P f (x # xs) = (if P x then f x # xs else x # update_first P f xs)"

text \<open>The patient row is found by its primary key and written back under it.\<close>

definition find_patient :: "'opd database \<Rightarrow> int \<Rightarrow> 'opd Patient option" where
  "find_patient db i = first (\<lambda>p. p_id p = i) (patients db)"

definition update_patient ::
  "int \<Rightarrow> ('opd Patient \<Rightarrow> 'opd Patient) \<Rightarrow> 'opd Patient list \<Rightarrow> 'opd Patient list" where
  "update_patient i f ps = map (\<lambda>p. if p_id p = i then f p else p) ps"

text \<open>
  \<^verbatim>\<open>db.query(func.max(Queue.position)).filter(Queue.opd_type == d).scalar() or 0\<close>:
  the aggregate over no rows is NULL, and \<^verbatim>\<open>or 0\<close> turns NULL (and 0) into 0.
\<close>

definition scalar_max :: "int list \<Rightarrow> int option" where
  "scalar_max xs = (case xs of [] \<Rightarrow> None | x # r \<Rightarrow> Some (fold max r x))"

definition or_zero :: "int option \<Rightarrow> int" where
  "or_zero v = (case v of None \<Rightarrow> 0 | Some m \<Rightarrow> if m = 0 then 0 else m)"

definition max_position :: "'opd Queue list \<Rightarrow> 'opd \<Rightarrow> int" where
  "max_position qs d = or_zero (scalar_max (map position (filter (\<lambda>q. opd_type q = d) qs)))"

text \<open>
  \<^verbatim>\<open>order_by(Patient.id.desc()).first()\<close>: the row with the greatest id.
\<close>

definition first_id_desc :: "'opd Patient list \<Rightarrow> 'opd Patient option" where
  "first_id_desc ps =
     (case ps of
        [] \<Rightarrow> None
      | p # r \<Rightarrow> Some (fold (\<lambda>x best. if p_id best < p_id x then x else best) r p))"

text \<open>
  The primary key of a new row, as SQLite assigns it: one more than the greatest id
  in the table, 1 in an empty table.
\<close>

definition next_id :: "'opd Patient list \<Rightarrow> int" where
  "next_id ps = fold max (map p_id ps) 0 + 1"

text \<open>
  \<^verbatim>\<open>order_by(registration_time.asc())\<close> and \<^verbatim>\<open>.desc()\<close>. SQL leaves the order of rows
  with equal keys open; here they stay in table order.
\<close>

definition order_by_asc :: "('a \<Rightarrow> int) \<Rightarrow> 'a list \<Rightarrow> 'a list" where
  "order_by_asc k xs = sort_key k xs"

definition order_by_desc :: "('a \<Rightarrow> int) \<Rightarrow> 'a list \<Rightarrow> 'a list" where
  "order_by_desc k xs = sort_key (\<lambda>x. - k x) xs"

text \<open>
  \<^verbatim>\<open>.offset(n)\<close> and \<^verbatim>\<open>.limit(n)\<close> in SQLite: a negative offset is no offset, a
  negative limit is no limit.
\<close>

definition sql_offset :: "int \<Rightarrow> 'a list \<Rightarrow> 'a list" where
  "sql_offset n xs = drop (nat n) xs"

definition sql_limit :: "int \<Rightarrow> 'a list \<Rightarrow> 'a list" where
  "sql_limit n xs = (if n < 0 then xs else take (nat n) xs)"

section \<open>The operations\<close>

subsection \<open>\<^verbatim>\<open>generate_token_number\<close> and \<^verbatim>\<open>register_patient\<close>\<close>

text \<open>
  \<open>today\<close> is \<^verbatim>\<open>datetime.now().strftime("%Y%m%d")\<close>, eight digits. The pattern
  \<^verbatim>\<open>f"{today}%"\<close> of \<^verbatim>\<open>LIKE\<close> then has no wild card but the final one and matches the
  strings that start with \<open>today\<close>.
\<close>

definition valid_day :: "string \<Rightarrow> bool" where
  "valid_day d = (length d = 8 \<and> list_all is_digit d)"

definition generate_token_number :: "'opd database \<Rightarrow> string \<Rightarrow> error + string" where
  "generate_token_number db today =
     (case first_id_desc (filter (\<lambda>p. prefix today (token_number p)) (patients db)) of
        Some last_token \<Rightarrow>
          (case py_int (last (split_char (CHR ''-'') (token_number last_token))) of
             None \<Rightarrow> Inl ValueError
           | Some last_number \<Rightarrow> Inr (today @ ''-'' @ format_04d (last_number + 1)))
      | None \<Rightarrow> Inr (today @ ''-'' @ format_04d 1))"

text \<open>
  Modelled from the spec: the column defaults of \<^verbatim>\<open>Patient\<close> are declared in
  \<^verbatim>\<open>database_sqlite\<close>, which is not part of the sources. A new patient is PENDING
  (the status the router logs for it), not dilated, and every optional field the
  router does not pass is empty.
\<close>

definition new_patient ::
  "int \<Rightarrow> string \<Rightarrow> PatientCreate \<Rightarrow> datetime \<Rightarrow> 'opd Patient" where
  "new_patient i tok patient_data now =
     \<lparr>p_id = i, token_number = tok, name = pc_name patient_data, age = pc_age patient_data,
      phone = pc_phone patient_data, registration_time = now, current_status = PENDING,
      allocated_opd = None, current_room = None, is_dilated = False, dilation_time = None,
      referred_from = None, referred_to = None, completed_at = None\<rparr>"

definition register_patient ::
  "'opd database \<Rightarrow> string \<Rightarrow> datetime \<Rightarrow> PatientCreate
     \<Rightarrow> error + ('opd database \<times> 'opd Patient)" where
  "register_patient db today now patient_data =
     (case generate_token_number db today of
        Inl e \<Rightarrow> Inl e
      | Inr token \<Rightarrow>
          (let db_patient = new_patient (next_id (patients db)) token patient_data now;
               flow_entry = \<lparr>f_patient_id = p_id db_patient, from_room = None,
                             to_room = Some ''registration'', f_status = PENDING,
                             f_notes = None\<rparr>
           in Inr (db\<lparr>patients := patients db @ [db_patient],
                       flows := flows db @ [flow_entry]\<rparr>, db_patient)))"

subsection \<open>\<^verbatim>\<open>allocate_opd\<close>\<close>

text \<open>The result is the new state and the \<^verbatim>\<open>queue_position\<close> of the reply.\<close>

definition allocate_opd ::
  "('opd \<Rightarrow> string) \<Rightarrow> 'opd database \<Rightarrow> int \<Rightarrow> 'opd \<Rightarrow> error + ('opd database \<times> int)" where
  "allocate_opd ov db pid opd =
     (case find_patient db pid of
        None \<Rightarrow> Inl NotFound
      | Some patient \<Rightarrow>
          (let max_pos = max_position (queues db) opd;
               queue_entry = \<lparr>opd_type = opd, patient_id = pid, position = max_pos + 1,
                              q_status = PENDING, updated_at = None\<rparr>;
               flow_entry = \<lparr>f_patient_id = pid, from_room = Some ''registration'',
                             to_room = Some (''opd_'' @ ov opd), f_status = PENDING,
                             f_notes = None\<rparr>
           in Inr (db\<lparr>patients :=
                         update_patient pid
                           (\<lambda>p. p\<lparr>allocated_opd := Some opd,
                                  current_room := Some (''opd_'' @ ov opd)\<rparr>) (patients db),
                       queues := queues db @ [queue_entry],
                       flows := flows db @ [flow_entry]\<rparr>, max_pos + 1)))"

subsection \<open>\<^verbatim>\<open>update_patient_status\<close>\<close>

text \<open>
  \<open>now\<close> is the clock reading of the DILATED or COMPLETED branch, \<open>now_q\<close> the
  later one for the queue entry. A patient without a department matches no queue
  entry, since every entry has one.
\<close>

definition update_patient_status ::
  "'opd database \<Rightarrow> int \<Rightarrow> PatientStatus \<Rightarrow> string option \<Rightarrow> datetime \<Rightarrow> datetime
     \<Rightarrow> error + 'opd database" where
  "update_patient_status db pid status notes now now_q =
     (case find_patient db pid of
        None \<Rightarrow> Inl NotFound
      | Some patient \<Rightarrow>
          (let own = (\<lambda>q. patient_id q = pid \<and> Some (opd_type q) = allocated_opd patient);
               special =
                 (if status = DILATED then (\<lambda>p. p\<lparr>is_dilated := True, dilation_time := Some now\<rparr>)
                  else if status = COMPLETED then (\<lambda>p. p\<lparr>completed_at := Some now\<rparr>)
                  else (\<lambda>p. p));
               qs1 = (if status = COMPLETED then filter (\<lambda>q. \<not> own q) (queues db)
                      else queues db);
               qs2 = update_first own (\<lambda>q. q\<lparr>q_status := status, updated_at := Some now_q\<rparr>) qs1;
               flow_entry = \<lparr>f_patient_id = pid, from_room = current_room patient,
                             to_room = None, f_status = status, f_notes = notes\<rparr>
           in Inr (db\<lparr>patients :=
                         update_patient pid (\<lambda>p. special (p\<lparr>current_status := status\<rparr>))
                           (patients db),
                       queues := qs2,
                       flows := flows db @ [flow_entry]\<rparr>)))"

subsection \<open>\<^verbatim>\<open>refer_patient\<close>\<close>

definition refer_patient ::
  "('opd \<Rightarrow> string) \<Rightarrow> 'opd database \<Rightarrow> int \<Rightarrow> 'opd \<Rightarrow> error + 'opd database" where
  "refer_patient ov db pid to =
     (case find_patient db pid of
        None \<Rightarrow> Inl NotFound
      | Some patient \<Rightarrow>
          (let from = allocated_opd patient;
               qs1 = (case from of
                        None \<Rightarrow> queues db
                      | Some f \<Rightarrow>
                          update_first (\<lambda>q. patient_id q = pid \<and> opd_type q = f)
                            (\<lambda>q. q\<lparr>q_status := REFERRED\<rparr>) (queues db));
               there = (\<lambda>q. patient_id q = pid \<and> opd_type q = to);
               qs2 = (case first there qs1 of
                        None \<Rightarrow>
                          qs1 @ [\<lparr>opd_type = to, patient_id = pid,
                                   position = max_position qs1 to + 1,
                                   q_status = REFERRED, updated_at = None\<rparr>]
                      | Some to_queue_entry \<Rightarrow>
                          update_first there (\<lambda>q. q\<lparr>q_status := REFERRED\<rparr>) qs1);
               flow_entry =
                 \<lparr>f_patient_id = pid,
                  from_room = map_option (\<lambda>f. ''opd_'' @ ov f) from,
                  to_room = Some (''opd_'' @ ov to),
                  f_status = REFERRED,
                  f_notes = Some (''Referred from ''
                              @ (case from of Some f \<Rightarrow> ov f | None \<Rightarrow> ''registration'')
                              @ '' to '' @ ov to)\<rparr>
           in Inr (db\<lparr>patients :=
                         update_patient pid
                           (\<lambda>p. p\<lparr>referred_from := map_option ov from,
                                  referred_to := Some (ov to),
                                  current_status := REFERRED\<rparr>) (patients db),
                       queues := qs2,
                       flows := flows db @ [flow_entry]\<rparr>)))"

subsection \<open>\<^verbatim>\<open>end_patient_visit\<close>\<close>

text \<open>
  \<^verbatim>\<open>patient.status = ...\<close> in the source sets an attribute that is no column of the
  table; it does not reach the database.
\<close>

definition end_patient_visit ::
  "'opd database \<Rightarrow> int \<Rightarrow> datetime \<Rightarrow> error + 'opd database" where
  "end_patient_visit db pid now =
     (case find_patient db pid of
        None \<Rightarrow> Inl NotFound
      | Some patient \<Rightarrow>
          (let flow_entry = \<lparr>f_patient_id = pid, from_room = current_room patient,
                             to_room = Some ''completed'', f_status = COMPLETED,
                             f_notes = Some ''Patient visit completed''\<rparr>
           in Inr (db\<lparr>patients :=
                         update_patient pid
                           (\<lambda>p. p\<lparr>current_status := COMPLETED, completed_at := Some now,
                                  current_room := None, allocated_opd := None,
                                  referred_from := None, referred_to := None\<rparr>) (patients db),
                       queues := filter (\<lambda>q. patient_id q \<noteq> pid) (queues db),
                       flows := flows db @ [flow_entry]\<rparr>)))"

subsection \<open>\<^verbatim>\<open>get_patients\<close> and \<^verbatim>\<open>list_referred_patients\<close>\<close>

text \<open>
  \<^verbatim>\<open>status\<close> and \<^verbatim>\<open>latest\<close> are optional query parameters. A member of
  \<^verbatim>\<open>PatientStatus\<close> is true in \<^verbatim>\<open>if status:\<close>, and \<^verbatim>\<open>if latest:\<close> holds for
  \<^verbatim>\<open>True\<close> only.
\<close>

definition get_patients ::
  "'opd database \<Rightarrow> int \<Rightarrow> int \<Rightarrow> PatientStatus option \<Rightarrow> bool option \<Rightarrow> 'opd Patient list" where
  "get_patients db skip limit status latest =
     (let query = (case status of
                     Some s \<Rightarrow> filter (\<lambda>p. current_status p = s) (patients db)
                   | None \<Rightarrow> patients db)
      in if latest = Some True
         then sql_limit 5 (order_by_desc registration_time query)
         else sql_limit limit (sql_offset skip (order_by_desc registration_time query)))"

text \<open>
  \<open>opds\<close> lists the members of \<^verbatim>\<open>OPDType\<close>. A query parameter is a string or absent;
  the empty string is false in \<^verbatim>\<open>if from_opd and ...\<close>. The answer is a list of
  \<^verbatim>\<open>ReferredPatientResponse\<close>, one for each patient of the query.
\<close>

definition filter_given :: "string list \<Rightarrow> string option \<Rightarrow> bool" where
  "filter_given valid_opds v = (case v of None \<Rightarrow> False | Some s \<Rightarrow> s \<noteq> [] \<and> s \<in> set valid_opds)"

definition referred_response :: "'opd Patient \<Rightarrow> ReferredPatientResponse" where
  "referred_response p =
     \<lparr>r_id = p_id p, r_token_number = token_number p, r_name = name p, r_age = age p,
      r_registration_time = registration_time p,
      from_opd = referred_from p, to_opd = referred_to p\<rparr>"

definition list_referred_patients ::
  "'opd list \<Rightarrow> ('opd \<Rightarrow> string) \<Rightarrow> 'opd database \<Rightarrow> string option \<Rightarrow> string option
     \<Rightarrow> ReferredPatientResponse list" where
  "list_referred_patients opds ov db from_q to_q =
     (let query = filter (\<lambda>p. current_status p = REFERRED) (patients db);
          valid_opds = map ov opds;
          query1 = (if filter_given valid_opds from_q
                    then filter (\<lambda>p. referred_from p = from_q) query else query);
          query2 = (if filter_given valid_opds to_q
                    then filter (\<lambda>p. referred_to p = to_q) query1 else query1)
      in map referred_response (order_by_asc registration_time query2))"

section \<open>Requests and runs\<close>

text \<open>
  The router dispatches a request to its handler. Only the five requests that write
  are listed. A request that fails leaves the tables as they were, so a state can be
  reached at all only if it can be reached by requests that succeed; \<open>run\<close> stops at
  the first failure.
\<close>

datatype 'opd request =
    Register string datetime PatientCreate
  | Allocate int 'opd
  | SetStatus int PatientStatus "string option" datetime datetime
  | Refer int 'opd
  | EndVisit int datetime

fun handle :: "('opd \<Rightarrow> string) \<Rightarrow> 'opd database \<Rightarrow> 'opd request \<Rightarrow> error + 'opd database" where
  "handle ov db (Register today now patient_data) =
     map_sum id fst (register_patient db today now patient_data)"
| "handle ov db (Allocate pid opd) = map_sum id fst (allocate_opd ov db pid opd)"
| "handle ov db (SetStatus pid status notes now now_q) =
     update_patient_status db pid status notes now now_q"
| "handle ov db (Refer pid to) = refer_patient ov db pid to"
| "handle ov db (EndVisit pid now) = end_patient_visit db pid now"

fun run :: "('opd \<Rightarrow> string) \<Rightarrow> 'opd database \<Rightarrow> 'opd request list \<Rightarrow> error + 'opd database" where
  "run ov db [] = Inr db"
| "run ov db (r # rs) = (case handle ov db r of Inl e \<Rightarrow> Inl e | Inr db' \<Rightarrow> run ov db' rs)"

text \<open>The clock of a registration gives a date of eight digits.\<close>

fun wf_request :: "'opd request \<Rightarrow> bool" where
  "wf_request (Register today now patient_data) = valid_day today"
| "wf_request r = True"

section \<open>The properties, as predicates on the state\<close>

text \<open>The four fields that completion clears.\<close>

definition cleared :: "'opd Patient \<Rightarrow> bool" where
  "cleared p = (allocated_opd p = None \<and> current_room p = None \<and>
                referred_from p = None \<and> referred_to p = None)"

text \<open>The equivalence of the three conditions, as the data model of the spec states it.\<close>

definition visit_equivalence :: "'opd Patient \<Rightarrow> bool" where
  "visit_equivalence p =
     ((completed_at p \<noteq> None) = (current_status p = COMPLETED) \<and>
      (current_status p = COMPLETED) = cleared p)"

text \<open>The part of it that the operations keep: a completed patient has the time stamp.\<close>

definition completed_stamped :: "'opd database \<Rightarrow> bool" where
  "completed_stamped db =
     list_all (\<lambda>p. current_status p = COMPLETED \<longrightarrow> completed_at p \<noteq> None) (patients db)"

text \<open>The queue of a department, in creation order, and the positions in it.\<close>

definition queue_of :: "'opd database \<Rightarrow> 'opd \<Rightarrow> 'opd Queue list" where
  "queue_of db d = filter (\<lambda>q. opd_type q = d) (queues db)"

definition positions :: "'opd database \<Rightarrow> 'opd \<Rightarrow> int list" where
  "positions db d = map position (queue_of db d)"

definition entries_of :: "'opd database \<Rightarrow> int \<Rightarrow> 'opd \<Rightarrow> 'opd Queue list" where
  "entries_of db pid d = filter (\<lambda>q. patient_id q = pid \<and> opd_type q = d) (queues db)"

text \<open>
  Where a queue entry stands: its department, its patient and its position. The
  queue table as rows of these, in creation order.
\<close>

definition placed :: "'opd Queue \<Rightarrow> 'opd \<times> int \<times> int" where
  "placed q = (opd_type q, patient_id q, position q)"

definition placements :: "'opd database \<Rightarrow> ('opd \<times> int \<times> int) list" where
  "placements db = map placed (queues db)"

text \<open>A queue entry without its status.\<close>

definition unstatus :: "'opd Queue \<Rightarrow> 'opd \<times> int \<times> int \<times> datetime option" where
  "unstatus q = (opd_type q, patient_id q, position q, updated_at q)"

text \<open>
  Follows the words of the spec (section 4.1): the highest number among the tokens
  of today, 0 when there is none, and the token that continues it.
\<close>

definition token_seq :: "string \<Rightarrow> int" where
  "token_seq t = (case py_int (last (split_char (CHR ''-'') t)) of None \<Rightarrow> 0 | Some n \<Rightarrow> n)"

definition highest_seq :: "'opd database \<Rightarrow> string \<Rightarrow> int" where
  "highest_seq db today =
     fold max (map token_seq (filter (prefix today) (map token_number (patients db)))) 0"

definition next_token_spec :: "'opd database \<Rightarrow> string \<Rightarrow> string" where
  "next_token_spec db today = today @ ''-'' @ format_04d (highest_seq db today + 1)"

text \<open>
  The tokens of a table that the allocator has filled, newest first: each starts with
  a date of eight digits, and its number is one more than the number of older tokens
  of that date.
\<close>

fun issued_rev :: "string list \<Rightarrow> bool" where
  "issued_rev [] = True"
| "issued_rev (t # older) =
     (valid_day (take 8 t) \<and>
      t = take 8 t @ ''-'' @ format_04d (int (length (filter (prefix (take 8 t)) older)) + 1) \<and>
      issued_rev older)"

definition token_inv :: "'opd database \<Rightarrow> bool" where
  "token_inv db =
     (sorted_wrt (<) (map p_id (patients db)) \<and>
      issued_rev (rev (map token_number (patients db))))"

section \<open>Sample data for the concrete runs\<close>

text \<open>
  Modelled from the spec: the members of \<^verbatim>\<open>OPDType\<close> are not in the sources. The
  scenarios of the spec name the departments eye and ent and register Asha, aged 30.
\<close>

datatype dept = EYE | ENT

fun dept_value :: "dept \<Rightarrow> string" where
  "dept_value EYE = ''eye''"
| "dept_value ENT = ''ent''"

definition asha :: PatientCreate where
  "asha = \<lparr>pc_name = ''Asha'', pc_age = 30, pc_phone = None\<rparr>"

definition ravi :: PatientCreate where
  "ravi = \<lparr>pc_name = ''Ravi'', pc_age = 41, pc_phone = Some ''5550100''\<rparr>"

text \<open>The state after Asha is registered and allocated to the eye department.\<close>

definition eye_patient :: "dept Patient" where
  "eye_patient = (new_patient 1 ''20260101-0001'' asha 100)
                   \<lparr>allocated_opd := Some EYE, current_room := Some ''opd_eye''\<rparr>"

definition eye_db :: "dept database" where
  "eye_db =
     \<lparr>patients = [eye_patient],
      queues = [\<lparr>opd_type = EYE, patient_id = 1, position = 1, q_status = PENDING,
                 updated_at = None\<rparr>],
      flows = [\<lparr>f_patient_id = 1, from_room = None, to_room = Some ''registration'',
                f_status = PENDING, f_notes = None\<rparr>,
               \<lparr>f_patient_id = 1, from_room = Some ''registration'',
                to_room = Some ''opd_eye'', f_status = PENDING, f_notes = None\<rparr>]\<rparr>"

section \<open>Lookups and updates\<close>

lemma eye_db_reached:
  "run dept_value empty_db [Register ''20260101'' 100 asha, Allocate 1 EYE] = Inr eye_db"
  by code_simp

lemma eye_db_patient: "find_patient eye_db 1 = Some eye_patient"
  by code_simp

lemma first_update_patient:
  assumes "\<And>p. p_id (f p) = p_id p"
  shows "first (\<lambda>p. p_id p = i) (update_patient i f ps)
         = map_option f (first (\<lambda>p. p_id p = i) ps)"
  using assms by (induction ps) (simp_all add: first_def update_patient_def)

lemma first_Some_set: "first P xs = Some x \<Longrightarrow> x \<in> set xs \<and> P x"
  by (auto simp: first_def find_Some_iff)

lemma first_None_iff: "first P xs = None \<longleftrightarrow> (\<forall>x\<in>set xs. \<not> P x)"
  by (auto simp: first_def find_None_iff)

lemma update_first_none: "\<forall>x\<in>set xs. \<not> P x \<Longrightarrow> update_first P f xs = xs"
  by (induction xs) simp_all

lemma length_update_first [simp]: "length (update_first P f xs) = length xs"
  by (induction xs) simp_all

lemma update_first_hit: "first P xs = Some x \<Longrightarrow> f x \<in> set (update_first P f xs)"
  by (induction xs) (auto simp: first_def split: if_splits)

lemma update_first_keeps:
  "x \<in> set xs \<Longrightarrow> x \<in> set (update_first P f xs) \<or> f x \<in> set (update_first P f xs)"
  by (induction xs) auto

lemma map_update_first: "(\<And>x. g (f x) = g x) \<Longrightarrow> map g (update_first P f xs) = map g xs"
  by (induction xs) simp_all

lemma first_update_first:
  "(\<And>x. P (f x) = P x) \<Longrightarrow> first P (update_first P f xs) = map_option f (first P xs)"
  by (induction xs) (simp_all add: first_def)

lemma first_update_other:
  "(\<And>x. P (m x) = P x) \<Longrightarrow>
   rel_option (\<lambda>a b. b = a \<or> b = m a) (first P xs) (first P (update_first Q m xs))"
  by (induction xs) (auto simp: first_def option.rel_refl)

lemma max_position_eq:
  "max_position (queues db) d = (if positions db d = [] then 0 else Max (set (positions db d)))"
proof (cases "positions db d")
  case Nil
  then show ?thesis
    by (simp add: max_position_def positions_def queue_of_def scalar_max_def or_zero_def)
next
  case (Cons x r)
  then have "max_position (queues db) d = fold max r x"
    by (simp add: max_position_def positions_def queue_of_def scalar_max_def or_zero_def)
  also have "\<dots> = Max (set (x # r))"
    by (simp only: Max.set_eq_fold)
  finally show ?thesis using Cons by simp
qed

lemma filter_update_first_status:
  "map position (filter (\<lambda>q. opd_type q = d) (update_first P (\<lambda>q. q\<lparr>q_status := s\<rparr>) qs))
   = map position (filter (\<lambda>q. opd_type q = d) qs)"
  by (induction qs) simp_all

lemma max_position_update_first:
  "max_position (update_first P (\<lambda>q. q\<lparr>q_status := s\<rparr>) qs) d = max_position qs d"
  by (simp add: max_position_def filter_update_first_status)

lemma unstatus_update_first:
  "map unstatus (update_first P (\<lambda>q. q\<lparr>q_status := s\<rparr>) qs) = map unstatus qs"
  by (rule map_update_first) (simp add: unstatus_def)

section \<open>Referral\<close>

lemma refer_patient_Inr:
  assumes "find_patient db pid = Some p"
  shows "refer_patient ov db pid to =
    Inr (db\<lparr>patients := update_patient pid
                  (\<lambda>x. x\<lparr>referred_from := map_option ov (allocated_opd p),
                         referred_to := Some (ov to), current_status := REFERRED\<rparr>) (patients db),
           queues :=
             (let qs1 = (case allocated_opd p of None \<Rightarrow> queues db
                         | Some f \<Rightarrow> update_first (\<lambda>q. patient_id q = pid \<and> opd_type q = f)
                              (\<lambda>q. q\<lparr>q_status := REFERRED\<rparr>) (queues db))
              in case first (\<lambda>q. patient_id q = pid \<and> opd_type q = to) qs1 of
                   None \<Rightarrow> qs1 @ [\<lparr>opd_type = to, patient_id = pid,
                                    position = max_position qs1 to + 1,
                                    q_status = REFERRED, updated_at = None\<rparr>]
                 | Some e \<Rightarrow> update_first (\<lambda>q. patient_id q = pid \<and> opd_type q = to)
                              (\<lambda>q. q\<lparr>q_status := REFERRED\<rparr>) qs1),
           flows := flows db @
             [\<lparr>f_patient_id = pid,
               from_room = map_option (\<lambda>f. ''opd_'' @ ov f) (allocated_opd p),
               to_room = Some (''opd_'' @ ov to), f_status = REFERRED,
               f_notes = Some (''Referred from ''
                   @ (case allocated_opd p of Some f \<Rightarrow> ov f | None \<Rightarrow> ''registration'')
                   @ '' to '' @ ov to)\<rparr>]\<rparr>)"
  using assms by (simp add: refer_patient_def Let_def)

lemma to_entry_after:
  fixes qs1 :: "'opd Queue list" and pid :: int and to :: 'opd
  defines "there \<equiv> (\<lambda>q::'opd Queue. patient_id q = pid \<and> opd_type q = to)"
  defines "qs2 \<equiv> (case first there qs1 of
                   None \<Rightarrow> qs1 @ [\<lparr>opd_type = to, patient_id = pid,
                                    position = max_position qs1 to + 1,
                                    q_status = REFERRED, updated_at = None\<rparr>]
                 | Some e \<Rightarrow> update_first there (\<lambda>q. q\<lparr>q_status := REFERRED\<rparr>) qs1)"
  shows "\<exists>q\<in>set qs2. patient_id q = pid \<and> opd_type q = to \<and> q_status q = REFERRED"
proof (cases "first there qs1")
  case None
  then show ?thesis by (simp add: qs2_def)
next
  case (Some e)
  then have "e\<lparr>q_status := REFERRED\<rparr> \<in> set qs2" and "there e"
    using update_first_hit [OF Some, of "\<lambda>q. q\<lparr>q_status := REFERRED\<rparr>"] first_Some_set [OF Some]
    by (simp_all add: qs2_def)
  then show ?thesis by (auto simp: there_def intro!: bexI [of _ "e\<lparr>q_status := REFERRED\<rparr>"])
qed

lemma from_entry_after:
  fixes qs :: "'opd Queue list" and pid :: int and to :: 'opd and f :: 'opd
  assumes "\<exists>q\<in>set qs. patient_id q = pid \<and> opd_type q = f"
  defines "qs1 \<equiv> update_first (\<lambda>q. patient_id q = pid \<and> opd_type q = f)
                              (\<lambda>q. q\<lparr>q_status := REFERRED\<rparr>) qs"
  defines "there \<equiv> (\<lambda>q::'opd Queue. patient_id q = pid \<and> opd_type q = to)"
  defines "qs2 \<equiv> (case first there qs1 of
                   None \<Rightarrow> qs1 @ [\<lparr>opd_type = to, patient_id = pid,
                                    position = max_position qs1 to + 1,
                                    q_status = REFERRED, updated_at = None\<rparr>]
                 | Some e \<Rightarrow> update_first there (\<lambda>q. q\<lparr>q_status := REFERRED\<rparr>) qs1)"
  shows "\<exists>q\<in>set qs2. patient_id q = pid \<and> opd_type q = f \<and> q_status q = REFERRED"
proof -
  let ?P = "\<lambda>q::'opd Queue. patient_id q = pid \<and> opd_type q = f"
  let ?m = "\<lambda>q::'opd Queue. q\<lparr>q_status := REFERRED\<rparr>"
  from assms(1) obtain e where e: "first ?P qs = Some e"
    by (cases "first ?P qs") (auto simp: first_None_iff)
  have in1: "?m e \<in> set qs1" and Pe: "?P e"
    using update_first_hit [OF e, of ?m] first_Some_set [OF e] by (simp_all add: qs1_def)
  have "?m e \<in> set qs2 \<or> ?m (?m e) \<in> set qs2"
  proof (cases "first there qs1")
    case None
    then show ?thesis using in1 by (simp add: qs2_def)
  next
    case (Some e')
    then show ?thesis using update_first_keeps [OF in1, of there ?m] by (simp add: qs2_def)
  qed
  then have "?m e \<in> set qs2" by simp
  then show ?thesis using Pe by (auto intro!: bexI [of _ "?m e"])
qed

text \<open>
  Claim C2, as the code has it. After \<^verbatim>\<open>refer(p, to)\<close> on an existing patient whose
  \<^verbatim>\<open>allocated_opd\<close> was \<open>f\<close>, the patient is REFERRED with \<^verbatim>\<open>referred_from\<close> the value
  of \<open>f\<close> and \<^verbatim>\<open>referred_to\<close> the value of \<open>to\<close>, and department \<open>to\<close> holds a queue
  entry of the patient with status REFERRED. Department \<open>f\<close> holds one with status
  REFERRED when the patient had an entry there before the call: the referral marks
  the entry of the origin and does not create one.
\<close>

theorem refer_patient_dual_membership:
  assumes "find_patient db pid = Some p" and "allocated_opd p = Some f"
  shows "\<exists>db' p'. refer_patient ov db pid to = Inr db' \<and>
           find_patient db' pid = Some p' \<and>
           referred_from p' = Some (ov f) \<and> referred_to p' = Some (ov to) \<and>
           current_status p' = REFERRED \<and>
           (\<exists>q\<in>set (queues db'). patient_id q = pid \<and> opd_type q = to \<and> q_status q = REFERRED) \<and>
           ((\<exists>q\<in>set (queues db). patient_id q = pid \<and> opd_type q = f) \<longrightarrow>
            (\<exists>q\<in>set (queues db'). patient_id q = pid \<and> opd_type q = f \<and> q_status q = REFERRED))"
proof -
  let ?g = "\<lambda>x::'a Patient. x\<lparr>referred_from := map_option ov (allocated_opd p),
                         referred_to := Some (ov to), current_status := REFERRED\<rparr>"
  have fp: "first (\<lambda>p. p_id p = pid) (update_patient pid ?g (patients db)) = Some (?g p)"
    using assms(1) by (simp add: first_update_patient find_patient_def)
  show ?thesis
    unfolding refer_patient_Inr [OF assms(1)]
    using fp assms(2) to_entry_after [where pid = pid and to = to]
      from_entry_after [where pid = pid and f = f and to = to]
    by (simp add: find_patient_def Let_def)
qed

theorem refer_patient_dual_membership_witness:
  "find_patient eye_db 1 = Some eye_patient \<and> allocated_opd eye_patient = Some EYE \<and>
   (\<exists>q\<in>set (queues eye_db). patient_id q = 1 \<and> opd_type q = EYE) \<and>
   (\<exists>db' p'. refer_patient dept_value eye_db 1 ENT = Inr db' \<and>
      find_patient db' 1 = Some p' \<and>
      referred_from p' = Some ''eye'' \<and> referred_to p' = Some ''ent'' \<and>
      current_status p' = REFERRED \<and>
      (\<exists>q\<in>set (queues db'). patient_id q = 1 \<and> opd_type q = ENT \<and> q_status q = REFERRED) \<and>
      (\<exists>q\<in>set (queues db'). patient_id q = 1 \<and> opd_type q = EYE \<and> q_status q = REFERRED))"
proof -
  have h1: "find_patient eye_db 1 = Some eye_patient" by (rule eye_db_patient)
  have h2: "allocated_opd eye_patient = Some EYE" by (simp add: eye_patient_def)
  have h3: "\<exists>q\<in>set (queues eye_db). patient_id q = 1 \<and> opd_type q = EYE"
    by (simp add: eye_db_def)
  show ?thesis
    using h1 h2 h3 refer_patient_dual_membership [OF h1 h2, of dept_value ENT] by simp
qed

text \<open>
  The claim as the spec words it fails once the entry of the origin is gone. Asha
  is registered, allocated to eye, set to COMPLETED through the status update (which
  deletes her eye entry and keeps \<^verbatim>\<open>allocated_opd\<close>), then referred to ent: her prior
  allocation is eye, and no entry of hers is in the eye queue.
\<close>

theorem refer_patient_dual_membership_counterexample:
  "case run dept_value empty_db
          [Register ''20260101'' 100 asha, Allocate 1 EYE,
           SetStatus 1 COMPLETED None 200 201, Refer 1 ENT] of
     Inl e \<Rightarrow> False
   | Inr db \<Rightarrow> map allocated_opd (patients db) = [Some EYE] \<and>
              map referred_from (patients db) = [Some ''eye''] \<and>
              map opd_type (queues db) = [ENT] \<and>
              entries_of db 1 EYE = []"
  by code_simp

text \<open>
  Claim C8. A referral of an existing patient to \<open>to\<close> succeeds. When the patient has
  an entry in \<open>to\<close> already, no entry is created and no entry changes but in its status
  (so every position stays), and the first entry of the patient in \<open>to\<close> is the old
  one with status REFERRED. When there is none, one entry is appended: it has the next
  position of \<open>to\<close> and status REFERRED, and the entries before it are the old ones
  up to their status.
\<close>

theorem refer_patient_destination_entry:
  assumes "find_patient db pid = Some p"
  shows "\<exists>db'. refer_patient ov db pid to = Inr db' \<and>
           (if entries_of db pid to \<noteq> []
            then map unstatus (queues db') = map unstatus (queues db) \<and>
                 first (\<lambda>q. patient_id q = pid \<and> opd_type q = to) (queues db') =
                   map_option (\<lambda>q. q\<lparr>q_status := REFERRED\<rparr>)
                     (first (\<lambda>q. patient_id q = pid \<and> opd_type q = to) (queues db))
            else \<exists>kept. map unstatus kept = map unstatus (queues db) \<and>
                   queues db' = kept @
                     [\<lparr>opd_type = to, patient_id = pid,
                       position = (if positions db to = [] then 0
                                   else Max (set (positions db to))) + 1,
                       q_status = REFERRED, updated_at = None\<rparr>])"
proof -
  let ?m = "\<lambda>q::'a Queue. q\<lparr>q_status := REFERRED\<rparr>"
  let ?there = "\<lambda>q::'a Queue. patient_id q = pid \<and> opd_type q = to"
  define qs1 where "qs1 = (case allocated_opd p of None \<Rightarrow> queues db
                         | Some f \<Rightarrow> update_first (\<lambda>q. patient_id q = pid \<and> opd_type q = f) ?m (queues db))"
  have u1: "map unstatus qs1 = map unstatus (queues db)"
    by (simp add: qs1_def unstatus_update_first split: option.splits)
  have mp: "max_position qs1 to = max_position (queues db) to"
    by (simp add: qs1_def max_position_update_first split: option.splits)
  have rel: "rel_option (\<lambda>a b. b = a \<or> b = ?m a) (first ?there (queues db)) (first ?there qs1)"
    using first_update_other [of ?there ?m]
    by (auto simp add: qs1_def option.rel_refl split: option.splits)
  have ent: "(entries_of db pid to \<noteq> []) = (first ?there (queues db) \<noteq> None)"
    by (auto simp add: entries_of_def first_None_iff filter_empty_conv)
  show ?thesis
  proof (cases "first ?there (queues db)")
    case None
    then have "first ?there qs1 = None" using rel by (cases "first ?there qs1") simp_all
    then show ?thesis
      using None ent u1 mp assms
      by (simp add: refer_patient_def Let_def qs1_def [symmetric] max_position_eq)
  next
    case (Some e)
    then obtain e1 where e1: "first ?there qs1 = Some e1" "e1 = e \<or> e1 = ?m e"
      using rel by (cases "first ?there qs1") auto
    have "first ?there (update_first ?there ?m qs1) = Some (?m e)"
      using e1 first_update_first [of ?there ?m qs1] by auto
    then show ?thesis
      using Some ent u1 assms e1
      by (simp add: refer_patient_def Let_def qs1_def [symmetric] unstatus_update_first)
  qed
qed

text \<open>
  Asha, allocated to eye, is referred to ent twice: the first referral appends her ent
  entry at position 1, the second finds it and appends nothing.
\<close>

theorem refer_patient_destination_entry_witness:
  "find_patient eye_db 1 = Some eye_patient \<and>
   (\<exists>db'. refer_patient dept_value eye_db 1 ENT = Inr db' \<and>
      (\<exists>kept. map unstatus kept = map unstatus (queues eye_db) \<and>
         queues db' = kept @ [\<lparr>opd_type = ENT, patient_id = 1, position = 1,
                                q_status = REFERRED, updated_at = None\<rparr>]) \<and>
      (\<exists>db''. refer_patient dept_value db' 1 ENT = Inr db'' \<and> queues db'' = queues db'))"
proof -
  have h: "find_patient eye_db 1 = Some eye_patient" by (rule eye_db_patient)
  have e: "entries_of eye_db 1 ENT = []" "positions eye_db ENT = []" by code_simp+
  obtain db' where r: "refer_patient dept_value eye_db 1 ENT = Inr db'"
    and k: "\<exists>kept. map unstatus kept = map unstatus (queues eye_db) \<and>
         queues db' = kept @ [\<lparr>opd_type = ENT, patient_id = 1, position = 1,
                                q_status = REFERRED, updated_at = None\<rparr>]"
    using refer_patient_destination_entry [OF h, of dept_value ENT] e by auto
  have "refer_patient dept_value eye_db 1 ENT
        = Inr (eye_db\<lparr>patients := [eye_patient\<lparr>referred_from := Some ''eye'',
                         referred_to := Some ''ent'', current_status := REFERRED\<rparr>],
                 queues := [\<lparr>opd_type = EYE, patient_id = 1, position = 1,
                             q_status = REFERRED, updated_at = None\<rparr>,
                            \<lparr>opd_type = ENT, patient_id = 1, position = 1,
                             q_status = REFERRED, updated_at = None\<rparr>],
                 flows := flows eye_db @
                   [\<lparr>f_patient_id = 1, from_room = Some ''opd_eye'',
                     to_room = Some ''opd_ent'', f_status = REFERRED,
                     f_notes = Some ''Referred from eye to ent''\<rparr>]\<rparr>)"
    by code_simp
  with r have "refer_patient dept_value db' 1 ENT = Inr
       (db'\<lparr>flows := flows db' @
                   [\<lparr>f_patient_id = 1, from_room = Some ''opd_eye'',
                     to_room = Some ''opd_ent'', f_status = REFERRED,
                     f_notes = Some ''Referred from eye to ent''\<rparr>]\<rparr>)"
    by (auto simp add: refer_patient_def find_patient_def first_def update_patient_def
        eye_patient_def new_patient_def eye_db_def Let_def)
  then show ?thesis using h r k by auto
qed

section \<open>Completion\<close>

text \<open>
  Claim C6. \<^verbatim>\<open>setStatus(p, COMPLETED)\<close> on an existing patient succeeds. The queue table
  after it is the one before without the entries of (\<open>p\<close>, the department \<open>p\<close> is
  allocated to), in the same order: the queue of every other department and the
  entries of every other patient are as they were. The patient table changes in the
  rows of \<open>p\<close> only, which get the status and the time stamp.
\<close>

theorem update_patient_status_completed_frame:
  assumes "find_patient db pid = Some p"
  shows "\<exists>db'. update_patient_status db pid COMPLETED notes now now_q = Inr db' \<and>
           queues db' =
             filter (\<lambda>q. \<not> (patient_id q = pid \<and> Some (opd_type q) = allocated_opd p))
               (queues db) \<and>
           (\<forall>d. Some d \<noteq> allocated_opd p \<longrightarrow> queue_of db' d = queue_of db d) \<and>
           (\<forall>i. i \<noteq> pid \<longrightarrow>
              filter (\<lambda>q. patient_id q = i) (queues db')
              = filter (\<lambda>q. patient_id q = i) (queues db)) \<and>
           patients db' =
             map (\<lambda>x. if p_id x = pid
                       then x\<lparr>current_status := COMPLETED, completed_at := Some now\<rparr>
                       else x) (patients db)"
proof -
  let ?own = "\<lambda>q::'a Queue. patient_id q = pid \<and> Some (opd_type q) = allocated_opd p"
  have "update_first ?own g (filter (\<lambda>q. \<not> ?own q) (queues db))
        = filter (\<lambda>q. \<not> ?own q) (queues db)" for g
    by (rule update_first_none) simp
  then show ?thesis
    using assms
    by (auto simp add: update_patient_status_def update_patient_def queue_of_def
        intro: filter_cong)
qed

text \<open>
  Asha has entries in eye and ent after her referral; completed through the status
  update, she loses the eye entry (her allocation) and keeps the ent entry.
\<close>

theorem update_patient_status_completed_frame_witness:
  "\<exists>db1 p1. refer_patient dept_value eye_db 1 ENT = Inr db1 \<and>
      find_patient db1 1 = Some p1 \<and> allocated_opd p1 = Some EYE \<and>
      map opd_type (queues db1) = [EYE, ENT] \<and>
      (\<exists>db'. update_patient_status db1 1 COMPLETED None 200 201 = Inr db' \<and>
         map opd_type (queues db') = [ENT] \<and> queue_of db' ENT = queue_of db1 ENT \<and>
         map current_status (patients db') = [COMPLETED] \<and>
         map completed_at (patients db') = [Some 200])"
proof -
  define p1 where "p1 = eye_patient\<lparr>referred_from := Some ''eye'',
                         referred_to := Some ''ent'', current_status := REFERRED\<rparr>"
  define db1 where "db1 = eye_db
      \<lparr>patients := [p1],
       queues := [\<lparr>opd_type = EYE, patient_id = 1, position = 1,
                   q_status = REFERRED, updated_at = None\<rparr>,
                  \<lparr>opd_type = ENT, patient_id = 1, position = 1,
                   q_status = REFERRED, updated_at = None\<rparr>],
       flows := flows eye_db @
                   [\<lparr>f_patient_id = 1, from_room = Some ''opd_eye'',
                     to_room = Some ''opd_ent'', f_status = REFERRED,
                     f_notes = Some ''Referred from eye to ent''\<rparr>]\<rparr>"
  have r: "refer_patient dept_value eye_db 1 ENT = Inr db1"
    unfolding db1_def p1_def by code_simp
  have h: "find_patient db1 1 = Some p1"
    by (simp add: db1_def p1_def find_patient_def first_def eye_patient_def new_patient_def)
  have a: "allocated_opd p1 = Some EYE"
    by (simp add: p1_def eye_patient_def)
  have q: "map opd_type (queues db1) = [EYE, ENT]"
    by (simp add: db1_def)
  from update_patient_status_completed_frame [OF h, of None 200 201]
  obtain db' where
    "update_patient_status db1 1 COMPLETED None 200 201 = Inr db'"
    "queues db' = filter (\<lambda>q. \<not> (patient_id q = 1 \<and> Some (opd_type q) = allocated_opd p1)) (queues db1)"
    "queue_of db' ENT = queue_of db1 ENT"
    "patients db' = map (\<lambda>x. if p_id x = 1
                       then x\<lparr>current_status := COMPLETED, completed_at := Some 200\<rparr>
                       else x) (patients db1)"
    using a by auto
  then have "update_patient_status db1 1 COMPLETED None 200 201 = Inr db' \<and>
         map opd_type (queues db') = [ENT] \<and> queue_of db' ENT = queue_of db1 ENT \<and>
         map current_status (patients db') = [COMPLETED] \<and>
         map completed_at (patients db') = [Some 200]"
    using a by (simp add: db1_def p1_def eye_patient_def new_patient_def)
  with r h a q show ?thesis
    by (intro exI [of _ db1] exI [of _ p1] conjI exI [of _ db']) simp_all
qed

text \<open>
  Claim C7. \<^verbatim>\<open>endVisit(p)\<close> on an existing patient succeeds. After it no queue entry
  of \<open>p\<close> is left in any department; the row of \<open>p\<close> has \<^verbatim>\<open>allocated_opd\<close>,
  \<^verbatim>\<open>current_room\<close>, \<^verbatim>\<open>referred_from\<close> and \<^verbatim>\<open>referred_to\<close> empty, status COMPLETED and
  \<^verbatim>\<open>completed_at\<close> the time of the call; and the flow log is the old one with one
  event more, for \<open>p\<close> and to the room \<^verbatim>\<open>completed\<close>.
\<close>

theorem end_patient_visit_reconciles:
  assumes "find_patient db pid = Some p"
  shows "\<exists>db' p' ev. end_patient_visit db pid now = Inr db' \<and>
           (\<forall>q \<in> set (queues db'). patient_id q \<noteq> pid) \<and>
           find_patient db' pid = Some p' \<and> cleared p' \<and>
           current_status p' = COMPLETED \<and> completed_at p' = Some now \<and>
           flows db' = flows db @ [ev] \<and> to_room ev = Some ''completed'' \<and>
           f_patient_id ev = pid"
proof -
  let ?f = "\<lambda>p::'a Patient. p\<lparr>current_status := COMPLETED, completed_at := Some now,
                 current_room := None, allocated_opd := None,
                 referred_from := None, referred_to := None\<rparr>"
  have "first (\<lambda>p. p_id p = pid) (update_patient pid ?f (patients db)) = Some (?f p)"
    using assms by (simp add: first_update_patient find_patient_def)
  then show ?thesis
    using assms by (simp add: end_patient_visit_def find_patient_def cleared_def)
qed

theorem end_patient_visit_reconciles_witness:
  "find_patient eye_db 1 = Some eye_patient \<and>
   (\<exists>db' p' ev. end_patient_visit eye_db 1 500 = Inr db' \<and>
      (\<forall>q \<in> set (queues db'). patient_id q \<noteq> 1) \<and>
      find_patient db' 1 = Some p' \<and> cleared p' \<and>
      current_status p' = COMPLETED \<and> completed_at p' = Some 500 \<and>
      flows db' = flows eye_db @ [ev] \<and> to_room ev = Some ''completed'' \<and>
      f_patient_id ev = 1)"
proof -
  have h: "find_patient eye_db 1 = Some eye_patient" by (rule eye_db_patient)
  show ?thesis
    using h end_patient_visit_reconciles [OF h, of 500] by simp
qed

section \<open>What a request does to the patient table\<close>

lemma handle_patients:
  assumes "handle ov db r = Inr db'"
  shows "\<exists>g new. patients db' = map g (patients db) @ new \<and>
           (\<forall>p. p_id (g p) = p_id p \<and> (is_dilated p \<longrightarrow> is_dilated (g p)) \<and>
                (dilation_time p \<noteq> None \<longrightarrow> dilation_time (g p) \<noteq> None) \<and>
                ((current_status p = COMPLETED \<longrightarrow> completed_at p \<noteq> None) \<longrightarrow>
                 (current_status (g p) = COMPLETED \<longrightarrow> completed_at (g p) \<noteq> None))) \<and>
           (\<forall>p\<in>set new. current_status p = PENDING)"
proof (cases r)
  case (Register today now d)
  then show ?thesis
    using assms
    by (auto simp add: register_patient_def new_patient_def Let_def split: sum.splits if_splits
        intro!: exI [of _ "\<lambda>p. p"])
next
  case (Allocate pid opd)
  then show ?thesis
    using assms
    by (auto simp add: allocate_opd_def update_patient_def Let_def split: option.splits if_splits
        intro!: exI [of _ "\<lambda>p. if p_id p = pid then p\<lparr>allocated_opd := Some opd,
                                  current_room := Some (''opd_'' @ ov opd)\<rparr> else p"]
                exI [of _ "[]"])
next
  case (SetStatus pid status nts now now_q)
  let ?special = "if status = DILATED then (\<lambda>p::'a Patient. p\<lparr>is_dilated := True, dilation_time := Some now\<rparr>)
                  else if status = COMPLETED then (\<lambda>p. p\<lparr>completed_at := Some now\<rparr>)
                  else (\<lambda>p. p)"
  show ?thesis
    using assms SetStatus
    by (auto simp add: update_patient_status_def update_patient_def Let_def split: option.splits if_splits
        intro!: exI [of _ "\<lambda>p. if p_id p = pid then ?special (p\<lparr>current_status := status\<rparr>) else p"]
                exI [of _ "[]"])
next
  case (Refer pid to)
  with assms obtain patient where "find_patient db pid = Some patient"
    by (cases "find_patient db pid") (simp_all add: refer_patient_def)
  then show ?thesis
    using assms Refer
    by (auto simp add: refer_patient_def update_patient_def Let_def split: if_splits
        intro!: exI [of _ "\<lambda>p. if p_id p = pid
                                then p\<lparr>referred_from := map_option ov (allocated_opd patient),
                                       referred_to := Some (ov to),
                                       current_status := REFERRED\<rparr> else p"]
                exI [of _ "[]"])
next
  case (EndVisit pid now)
  then show ?thesis
    using assms
    by (auto simp add: end_patient_visit_def update_patient_def Let_def split: option.splits if_splits
        intro!: exI [of _ "\<lambda>p. if p_id p = pid then p\<lparr>current_status := COMPLETED, completed_at := Some now,
                                  current_room := None, allocated_opd := None,
                                  referred_from := None, referred_to := None\<rparr> else p"]
                exI [of _ "[]"])
qed

lemma update_patient_status_Inr:
  assumes "find_patient db pid = Some p"
  shows "update_patient_status db pid status nts now now_q =
    Inr (db\<lparr>patients :=
               update_patient pid
                 (\<lambda>x. (if status = DILATED then (\<lambda>p. p\<lparr>is_dilated := True, dilation_time := Some now\<rparr>)
                        else if status = COMPLETED then (\<lambda>p. p\<lparr>completed_at := Some now\<rparr>)
                        else (\<lambda>p. p)) (x\<lparr>current_status := status\<rparr>)) (patients db),
             queues :=
               update_first (\<lambda>q. patient_id q = pid \<and> Some (opd_type q) = allocated_opd p)
                 (\<lambda>q. q\<lparr>q_status := status, updated_at := Some now_q\<rparr>)
                 (if status = COMPLETED
                  then filter (\<lambda>q. \<not> (patient_id q = pid \<and> Some (opd_type q) = allocated_opd p)) (queues db)
                  else queues db),
             flows := flows db @
               [\<lparr>f_patient_id = pid, from_room = current_room p, to_room = None,
                 f_status = status, f_notes = nts\<rparr>]\<rparr>)"
  using assms by (simp add: update_patient_status_def Let_def)

section \<open>Dilation\<close>

text \<open>
  Claim C5, as the code has it. No request unsets \<^verbatim>\<open>is_dilated\<close> or empties
  \<^verbatim>\<open>dilation_time\<close>: a request keeps every row of the patient table in its place
  and under its id, a dilated patient stays dilated and a stamped one stamped. A
  DILATED update of an existing patient succeeds, sets the flag, writes the time of
  the call into \<^verbatim>\<open>dilation_time\<close> whatever was there, appends one flow event with
  status DILATED, and gives the queue entry of the patient in the allocated
  department, if any, the status DILATED and the time of the update.
\<close>

theorem dilation_kept_and_restamped:
  "(\<forall>r db'. handle ov db r = Inr db' \<longrightarrow>
      length (patients db) \<le> length (patients db') \<and>
      (\<forall>i<length (patients db).
         p_id (patients db' ! i) = p_id (patients db ! i) \<and>
         (is_dilated (patients db ! i) \<longrightarrow> is_dilated (patients db' ! i)) \<and>
         (dilation_time (patients db ! i) \<noteq> None \<longrightarrow> dilation_time (patients db' ! i) \<noteq> None))) \<and>
   (\<forall>pid p nts now now_q. find_patient db pid = Some p \<longrightarrow>
      (\<exists>db' p' ev. update_patient_status db pid DILATED nts now now_q = Inr db' \<and>
         find_patient db' pid = Some p' \<and> is_dilated p' \<and> dilation_time p' = Some now \<and>
         flows db' = flows db @ [ev] \<and> f_patient_id ev = pid \<and> f_status ev = DILATED \<and>
         first (\<lambda>q. patient_id q = pid \<and> Some (opd_type q) = allocated_opd p) (queues db')
           = map_option (\<lambda>q. q\<lparr>q_status := DILATED, updated_at := Some now_q\<rparr>)
               (first (\<lambda>q. patient_id q = pid \<and> Some (opd_type q) = allocated_opd p) (queues db))))"
proof -
  have kept: "length (patients db) \<le> length (patients db') \<and>
      (\<forall>i<length (patients db).
         p_id (patients db' ! i) = p_id (patients db ! i) \<and>
         (is_dilated (patients db ! i) \<longrightarrow> is_dilated (patients db' ! i)) \<and>
         (dilation_time (patients db ! i) \<noteq> None \<longrightarrow> dilation_time (patients db' ! i) \<noteq> None))"
    if h: "handle ov db r = Inr db'" for r db'
  proof -
  from handle_patients [OF h] obtain g new where
    eq: "patients db' = map g (patients db) @ new" and
    g: "\<And>p. p_id (g p) = p_id p \<and> (is_dilated p \<longrightarrow> is_dilated (g p)) \<and>
                (dilation_time p \<noteq> None \<longrightarrow> dilation_time (g p) \<noteq> None)"
    by blast
  show ?thesis
    using g by (simp add: eq nth_append)
  qed
  have stamped: "\<exists>db' p' ev. update_patient_status db pid DILATED nts now now_q = Inr db' \<and>
         find_patient db' pid = Some p' \<and> is_dilated p' \<and> dilation_time p' = Some now \<and>
         flows db' = flows db @ [ev] \<and> f_patient_id ev = pid \<and> f_status ev = DILATED \<and>
         first (\<lambda>q. patient_id q = pid \<and> Some (opd_type q) = allocated_opd p) (queues db')
           = map_option (\<lambda>q. q\<lparr>q_status := DILATED, updated_at := Some now_q\<rparr>)
               (first (\<lambda>q. patient_id q = pid \<and> Some (opd_type q) = allocated_opd p) (queues db))"
    if f: "find_patient db pid = Some p" for pid p nts now now_q
  proof -
  let ?g = "\<lambda>x::'a Patient. x\<lparr>current_status := DILATED, is_dilated := True, dilation_time := Some now\<rparr>"
  let ?own = "\<lambda>q::'a Queue. patient_id q = pid \<and> Some (opd_type q) = allocated_opd p"
  have fp: "first (\<lambda>p. p_id p = pid) (update_patient pid ?g (patients db)) = Some (?g p)"
    using f by (simp add: first_update_patient find_patient_def)
  have fq: "first ?own (update_first ?own (\<lambda>q. q\<lparr>q_status := DILATED, updated_at := Some now_q\<rparr>) (queues db))
            = map_option (\<lambda>q. q\<lparr>q_status := DILATED, updated_at := Some now_q\<rparr>) (first ?own (queues db))"
    by (rule first_update_first) simp
  show ?thesis
    unfolding update_patient_status_Inr [OF f]
    using fp fq by (simp add: find_patient_def)
  qed
  from kept stamped show ?thesis by blast
qed

text \<open>
  A second DILATED update overwrites the time of the first: 200, then 300.
\<close>

theorem dilation_kept_and_restamped_counterexample:
  "(case run dept_value empty_db
           [Register ''20260101'' 100 asha, SetStatus 1 DILATED None 200 201] of
      Inl e \<Rightarrow> False
    | Inr db \<Rightarrow> map dilation_time (patients db) = [Some 200]) \<and>
   (case run dept_value empty_db
           [Register ''20260101'' 100 asha, SetStatus 1 DILATED None 200 201,
            SetStatus 1 DILATED None 300 301] of
      Inl e \<Rightarrow> False
    | Inr db \<Rightarrow> map dilation_time (patients db) = [Some 300])"
  by code_simp

theorem dilation_kept_and_restamped_witness:
  "find_patient eye_db 1 = Some eye_patient \<and>
   (\<exists>db'. update_patient_status eye_db 1 DILATED None 200 201 = Inr db' \<and>
      handle dept_value eye_db (SetStatus 1 DILATED None 200 201) = Inr db' \<and>
      map is_dilated (patients db') = [True] \<and>
      map dilation_time (patients db') = [Some 200] \<and>
      (\<exists>db''. handle dept_value db' (SetStatus 1 DILATED None 300 301) = Inr db'' \<and>
         length (patients db') \<le> length (patients db'') \<and>
         map is_dilated (patients db'') = [True] \<and>
         map dilation_time (patients db'') = [Some 300]))"
proof -
  have h: "find_patient eye_db 1 = Some eye_patient" by (rule eye_db_patient)
  define db1 where "db1 = eye_db
      \<lparr>patients := [eye_patient\<lparr>current_status := DILATED, is_dilated := True, dilation_time := Some 200\<rparr>],
       queues := [\<lparr>opd_type = EYE, patient_id = 1, position = 1, q_status = DILATED, updated_at = Some 201\<rparr>],
       flows := flows eye_db @ [\<lparr>f_patient_id = 1, from_room = Some ''opd_eye'', to_room = None,
                 f_status = DILATED, f_notes = None\<rparr>]\<rparr>"
  define db2 where "db2 = db1
      \<lparr>patients := [eye_patient\<lparr>current_status := DILATED, is_dilated := True, dilation_time := Some 300\<rparr>],
       queues := [\<lparr>opd_type = EYE, patient_id = 1, position = 1, q_status = DILATED, updated_at = Some 301\<rparr>],
       flows := flows db1 @ [\<lparr>f_patient_id = 1, from_room = Some ''opd_eye'', to_room = None,
                 f_status = DILATED, f_notes = None\<rparr>]\<rparr>"
  have s1: "update_patient_status eye_db 1 DILATED None 200 201 = Inr db1"
    unfolding db1_def by code_simp
  have s2: "handle dept_value db1 (SetStatus 1 DILATED None 300 301) = Inr db2"
    unfolding db2_def db1_def by code_simp
  have k: "length (patients db1) \<le> length (patients db2)"
    using dilation_kept_and_restamped [of dept_value db1] s2 by blast
  show ?thesis
    using h s1 s2 k by (simp add: db1_def db2_def)
qed

section \<open>The completion invariant\<close>

text \<open>
  Claim C1, as the code has it. If every COMPLETED patient has \<^verbatim>\<open>completed_at\<close> set,
  the same holds after any request that succeeds (register, allocate, setStatus,
  refer, endVisit). After an \<^verbatim>\<open>endVisit\<close> its patient has \<^verbatim>\<open>completed_at\<close> set, status
  COMPLETED and the four fields cleared, so the three conditions of the spec agree
  on that patient.
\<close>

theorem completed_stamped_preserved:
  assumes "completed_stamped db" and "handle ov db r = Inr db'"
  shows "completed_stamped db' \<and>
         (\<forall>pid now. r = EndVisit pid now \<longrightarrow>
            (\<exists>p'. find_patient db' pid = Some p' \<and> completed_at p' \<noteq> None \<and>
                  current_status p' = COMPLETED \<and> cleared p' \<and> visit_equivalence p'))"
proof -
  from handle_patients [OF assms(2)] obtain g new where
    eq: "patients db' = map g (patients db) @ new" and
    g: "\<And>p. (current_status p = COMPLETED \<longrightarrow> completed_at p \<noteq> None) \<longrightarrow>
                 (current_status (g p) = COMPLETED \<longrightarrow> completed_at (g p) \<noteq> None)" and
    new: "\<forall>p\<in>set new. current_status p = PENDING"
    by blast
  have inv: "completed_stamped db'"
    using assms(1) g new by (auto simp add: completed_stamped_def eq list_all_iff)
  have fin: "\<exists>p'. find_patient db' pid = Some p' \<and> completed_at p' \<noteq> None \<and>
                  current_status p' = COMPLETED \<and> cleared p' \<and> visit_equivalence p'"
    if r: "r = EndVisit pid now" for pid now
  proof -
    let ?f = "\<lambda>p::'a Patient. p\<lparr>current_status := COMPLETED, completed_at := Some now,
                 current_room := None, allocated_opd := None,
                 referred_from := None, referred_to := None\<rparr>"
    from assms(2) r obtain p where p: "find_patient db pid = Some p"
      by (cases "find_patient db pid") (simp_all add: end_patient_visit_def)
    have "first (\<lambda>p. p_id p = pid) (update_patient pid ?f (patients db)) = Some (?f p)"
      using p by (simp add: first_update_patient find_patient_def)
    then show ?thesis
      using assms(2) r p
      by (auto simp add: end_patient_visit_def find_patient_def cleared_def visit_equivalence_def)
  qed
  from inv fin show ?thesis by blast
qed

theorem completed_stamped_preserved_witness:
  "completed_stamped eye_db \<and>
   (\<exists>db'. handle dept_value eye_db (EndVisit 1 500) = Inr db' \<and> completed_stamped db' \<and>
      (\<exists>p'. find_patient db' 1 = Some p' \<and> completed_at p' \<noteq> None \<and>
            current_status p' = COMPLETED \<and> cleared p' \<and> visit_equivalence p'))"
proof -
  have h1: "completed_stamped eye_db" by code_simp
  obtain db' where h2: "handle dept_value eye_db (EndVisit 1 500) = Inr db'"
    by (simp add: end_patient_visit_def eye_db_patient)
  show ?thesis
    using h1 h2 completed_stamped_preserved [OF h1 h2] by simp
qed

text \<open>
  The three conditions are not equivalent on every patient: a patient who has just
  been registered has the four fields cleared, is PENDING and has no \<^verbatim>\<open>completed_at\<close>.
\<close>

theorem completed_stamped_preserved_counterexample:
  "case register_patient (empty_db :: dept database) ''20260101'' 100 asha of
     Inl e \<Rightarrow> False
   | Inr (db, p) \<Rightarrow> patients db = [p] \<and> cleared p \<and> current_status p = PENDING \<and>
                   completed_at p = None \<and> \<not> visit_equivalence p"
  by code_simp

section \<open>Queue positions\<close>

lemma sorted_wrt_subseq: "subseq xs ys \<Longrightarrow> sorted_wrt P ys \<Longrightarrow> sorted_wrt P xs"
proof (induction rule: list_emb.induct)
  case (list_emb_Cons2 x y xs ys)
  then show ?case using list_emb_set [of "(=)" xs ys] by auto
qed simp_all

lemma positions_update_first:
  assumes "\<And>q. opd_type (f q) = opd_type q" and "\<And>q. position (f q) = position q"
  shows "map position (filter (\<lambda>q. opd_type q = d) (update_first P f qs))
         = map position (filter (\<lambda>q. opd_type q = d) qs)"
  using assms by (induction qs) simp_all

lemma positions_filter: 
  "subseq (map position (filter (\<lambda>q. opd_type q = d) (filter P qs)))
          (map position (filter (\<lambda>q. opd_type q = d) qs))"
  by (intro subseq_map subseq_filter subseq_filter_left)

lemma handle_positions:
  assumes "handle ov db r = Inr db'"
  shows "subseq (positions db' d) (positions db d) \<or>
         positions db' d = positions db d @ [max_position (queues db) d + 1]"
proof (cases r)
  case (Register today now pd)
  then show ?thesis
    using assms
    by (auto simp add: register_patient_def positions_def queue_of_def Let_def split: sum.splits)
next
  case (Allocate pid opd)
  then show ?thesis
    using assms
    by (auto simp add: allocate_opd_def positions_def queue_of_def Let_def split: option.splits)
next
  case (SetStatus pid status nts now now_q)
  then show ?thesis
    using assms positions_filter
    by (auto simp add: update_patient_status_def positions_def queue_of_def Let_def
        positions_update_first split: option.splits)
next
  case (Refer pid to)
  then show ?thesis
    using assms
    by (auto simp add: refer_patient_def positions_def queue_of_def Let_def
        positions_update_first max_position_def split: option.splits)
next
  case (EndVisit pid now)
  then show ?thesis
    using assms positions_filter
    by (auto simp add: end_patient_visit_def positions_def queue_of_def Let_def
        split: option.splits)
qed

lemma sorted_wrt_snoc_max:
  fixes xs :: "int list"
  assumes "sorted_wrt (<) xs"
  shows "sorted_wrt (<) (xs @ [(if xs = [] then 0 else Max (set xs)) + 1])"
proof -
  have "x < Max (set xs) + 1" if "x \<in> set xs" for x
    using Max_ge [of "set xs" x] that by simp
  then show ?thesis using assms by (auto simp add: sorted_wrt_append)
qed

lemma handle_increasing:
  assumes "\<forall>d. sorted_wrt (<) (positions db d)" and "handle ov db r = Inr db'"
  shows "\<forall>d. sorted_wrt (<) (positions db' d)"
proof
  fix d
  from handle_positions [OF assms(2), of d]
  show "sorted_wrt (<) (positions db' d)"
  proof
    assume "subseq (positions db' d) (positions db d)"
    then show ?thesis using assms(1) sorted_wrt_subseq by blast
  next
    assume "positions db' d = positions db d @ [max_position (queues db) d + 1]"
    then show ?thesis
      using sorted_wrt_snoc_max [of "positions db d"] assms(1) by (simp add: max_position_eq)
  qed
qed

lemma run_increasing:
  assumes "\<forall>d. sorted_wrt (<) (positions db d)" and "run ov db rs = Inr db'"
  shows "\<forall>d. sorted_wrt (<) (positions db' d)"
  using assms
proof (induction rs arbitrary: db)
  case Nil
  then show ?case by simp
next
  case (Cons r rs)
  from Cons.prems(2) obtain db1 where h: "handle ov db r = Inr db1" and r: "run ov db1 rs = Inr db'"
    by (cases "handle ov db r") simp_all
  show ?case by (rule Cons.IH [OF handle_increasing [OF Cons.prems(1) h] r])
qed

lemma refer_patient_appends:
  assumes "refer_patient ov db pid to = Inr db'" and "entries_of db pid to = []"
  shows "positions db' to = positions db to @ [max_position (queues db) to + 1]"
proof -
  let ?m = "\<lambda>q::'a Queue. q\<lparr>q_status := REFERRED\<rparr>"
  let ?there = "\<lambda>q::'a Queue. patient_id q = pid \<and> opd_type q = to"
  from assms(1) obtain p where p: "find_patient db pid = Some p"
    by (cases "find_patient db pid") (simp_all add: refer_patient_def)
  define qs1 where "qs1 = (case allocated_opd p of None \<Rightarrow> queues db
                         | Some f \<Rightarrow> update_first (\<lambda>q. patient_id q = pid \<and> opd_type q = f) ?m (queues db))"
  have ps: "map position (filter (\<lambda>q. opd_type q = to) qs1) = positions db to"
    by (simp add: qs1_def positions_def queue_of_def filter_update_first_status split: option.splits)
  have mp: "max_position qs1 to = max_position (queues db) to"
    by (simp add: qs1_def max_position_update_first split: option.splits)
  have "first ?there (queues db) = None"
    using assms(2) by (auto simp add: entries_of_def first_None_iff filter_empty_conv)
  moreover have "rel_option (\<lambda>a b. b = a \<or> b = ?m a) (first ?there (queues db)) (first ?there qs1)"
    using first_update_other [of ?there ?m]
    by (auto simp add: qs1_def option.rel_refl split: option.splits)
  ultimately have "first ?there qs1 = None" by (cases "first ?there qs1") simp_all
  then have "queues db' = qs1 @ [\<lparr>opd_type = to, patient_id = pid,
                                    position = max_position qs1 to + 1,
                                    q_status = REFERRED, updated_at = None\<rparr>]"
    using assms(1) p by (auto simp add: refer_patient_def Let_def qs1_def [symmetric])
  then show ?thesis
    using ps mp by (simp add: positions_def queue_of_def)
qed

lemma placed_update_first:
  assumes "\<And>q. placed (f q) = placed q"
  shows "map placed (update_first P f qs) = map placed qs"
  using assms by (rule map_update_first)

lemma handle_placements:
  assumes "handle ov db r = Inr db'"
  shows "subseq (placements db') (placements db) \<or>
         (\<exists>pid d. placements db' = placements db @ [(d, pid, max_position (queues db) d + 1)])"
proof (cases r)
  case (Register today now pd)
  then show ?thesis
    using assms
    by (auto simp add: register_patient_def placements_def Let_def split: sum.splits)
next
  case (Allocate pid opd)
  then show ?thesis
    using assms
    by (auto simp add: allocate_opd_def placements_def placed_def Let_def split: option.splits)
next
  case (SetStatus pid status nts now now_q)
  then obtain p where p: "find_patient db pid = Some p"
    using assms by (cases "find_patient db pid") (simp_all add: update_patient_status_def)
  let ?own = "\<lambda>q::'a Queue. patient_id q = pid \<and> Some (opd_type q) = allocated_opd p"
  have "queues db' = update_first ?own (\<lambda>q. q\<lparr>q_status := status, updated_at := Some now_q\<rparr>)
                       (if status = COMPLETED then filter (\<lambda>q. \<not> ?own q) (queues db)
                        else queues db)"
    using assms SetStatus by (auto simp add: update_patient_status_Inr [OF p])
  then have "placements db' = map placed (if status = COMPLETED then filter (\<lambda>q. \<not> ?own q) (queues db)
                                     else queues db)"
    by (simp add: placements_def placed_update_first placed_def)
  then show ?thesis
    by (simp add: placements_def subseq_map)
next
  case (Refer pid to)
  then obtain p where p: "find_patient db pid = Some p"
    using assms by (cases "find_patient db pid") (simp_all add: refer_patient_def)
  let ?m = "\<lambda>q::'a Queue. q\<lparr>q_status := REFERRED\<rparr>"
  define qs1 where "qs1 = (case allocated_opd p of None \<Rightarrow> queues db
                         | Some f \<Rightarrow> update_first (\<lambda>q. patient_id q = pid \<and> opd_type q = f) ?m (queues db))"
  have q1: "map placed qs1 = placements db"
    by (simp add: qs1_def placements_def placed_update_first placed_def split: option.splits)
  have mp: "max_position qs1 to = max_position (queues db) to"
    by (simp add: qs1_def max_position_update_first split: option.splits)
  show ?thesis
  proof (cases "first (\<lambda>q. patient_id q = pid \<and> opd_type q = to) qs1")
    case None
    then have "queues db' = qs1 @ [\<lparr>opd_type = to, patient_id = pid,
                                    position = max_position qs1 to + 1,
                                    q_status = REFERRED, updated_at = None\<rparr>]"
      using assms Refer by (auto simp add: refer_patient_Inr [OF p] Let_def qs1_def [symmetric])
    then have "placements db' = placements db @ [(to, pid, max_position (queues db) to + 1)]"
      using q1 mp by (simp add: placements_def placed_def)
    then show ?thesis by blast
  next
    case (Some e)
    then have "queues db' = update_first (\<lambda>q. patient_id q = pid \<and> opd_type q = to) ?m qs1"
      using assms Refer by (auto simp add: refer_patient_Inr [OF p] Let_def qs1_def [symmetric])
    then have "placements db' = placements db"
      using q1 by (simp add: placements_def placed_update_first placed_def)
    then show ?thesis by simp
  qed
next
  case (EndVisit pid now)
  then show ?thesis
    using assms
    by (auto simp add: end_patient_visit_def placements_def subseq_map split: option.splits)
qed

lemma run_append:
  "run ov db (rs @ rs') = (case run ov db rs of Inl e \<Rightarrow> Inl e | Inr db1 \<Rightarrow> run ov db1 rs')"
  by (induction rs arbitrary: db) (simp_all split: sum.splits)

lemma placements_filter:
  "map placed (filter (\<lambda>q. P (placed q)) qs) = filter P (map placed qs)"
  by (simp add: filter_map o_def)

text \<open>
  Claim C4, as the code has it. In every state that requests reach from the empty
  database, the positions of the entries present in the queue of a department are
  strictly increasing in creation order, hence unique. A request either leaves the
  rows of the queue table where they stand (department, patient and position of each
  row as before, in the same order) up to the rows it deletes, or appends one row,
  whose position is the greatest present in its department plus one (1 for an empty
  queue). Completion through the status update deletes the rows of the patient in the
  allocated department, \<^verbatim>\<open>endVisit\<close> the rows of the patient, and neither touches
  another row: no position is changed or compacted. An allocation returns and stores
  the greatest position present plus one, and so does a referral that creates the
  entry of its target; so a gap below the greatest position stays, and the position
  of a deleted last entry is given again.
\<close>

theorem positions_increasing_in_queue:
  assumes "run ov empty_db rs = Inr db"
  shows "(\<forall>d. sorted_wrt (<) (positions db d) \<and> distinct (positions db d)) \<and>
         (\<forall>r db'. handle ov db r = Inr db' \<longrightarrow>
            subseq (placements db') (placements db) \<or>
            (\<exists>pid d. placements db' = placements db @
               [(d, pid, (if positions db d = [] then 0 else Max (set (positions db d))) + 1)])) \<and>
         (\<forall>pid p nts now now_q db'.
            find_patient db pid = Some p \<and>
            update_patient_status db pid COMPLETED nts now now_q = Inr db' \<longrightarrow>
            placements db'
            = filter (\<lambda>(d, i, n). \<not> (i = pid \<and> Some d = allocated_opd p)) (placements db)) \<and>
         (\<forall>pid now db'. end_patient_visit db pid now = Inr db' \<longrightarrow>
            placements db' = filter (\<lambda>(d, i, n). i \<noteq> pid) (placements db)) \<and>
         (\<forall>r db' d. handle ov db r = Inr db' \<longrightarrow>
            subseq (positions db' d) (positions db d) \<or>
            positions db' d = positions db d @
              [(if positions db d = [] then 0 else Max (set (positions db d))) + 1]) \<and>
         (\<forall>pid opd db' n. allocate_opd ov db pid opd = Inr (db', n) \<longrightarrow>
            n = (if positions db opd = [] then 0 else Max (set (positions db opd))) + 1 \<and>
            placements db' = placements db @ [(opd, pid, n)] \<and>
            positions db' opd = positions db opd @ [n]) \<and>
         (\<forall>pid to db'. refer_patient ov db pid to = Inr db' \<and> entries_of db pid to = [] \<longrightarrow>
            positions db' to = positions db to @
              [(if positions db to = [] then 0 else Max (set (positions db to))) + 1])"
proof -
  have "\<forall>d. sorted_wrt (<) (positions (empty_db :: 'a database) d)"
    by (simp add: positions_def queue_of_def empty_db_def)
  from run_increasing [OF this assms]
  have inc: "\<forall>d. sorted_wrt (<) (positions db d)" .
  then have dist: "\<forall>d. distinct (positions db d)"
    using strict_sorted_iff by blast
  have place: "subseq (placements db') (placements db) \<or>
            (\<exists>pid d. placements db' = placements db @
               [(d, pid, (if positions db d = [] then 0 else Max (set (positions db d))) + 1)])"
    if "handle ov db r = Inr db'" for r db'
    using handle_placements [OF that] by (simp add: max_position_eq)
  have del: "placements db'
            = filter (\<lambda>(d, i, n). \<not> (i = pid \<and> Some d = allocated_opd p)) (placements db)"
    if "find_patient db pid = Some p"
      and "update_patient_status db pid COMPLETED nts now now_q = Inr db'"
    for pid p nts now now_q db'
  proof -
    let ?own = "\<lambda>q::'a Queue. patient_id q = pid \<and> Some (opd_type q) = allocated_opd p"
    have "queues db' = update_first ?own (\<lambda>q. q\<lparr>q_status := COMPLETED, updated_at := Some now_q\<rparr>)
                         (filter (\<lambda>q. \<not> ?own q) (queues db))"
      using that by (auto simp add: update_patient_status_Inr [OF that(1)])
    then have "queues db' = filter (\<lambda>q. \<not> ?own q) (queues db)"
      by (simp add: update_first_none)
    then show ?thesis
      using placements_filter [of "\<lambda>(d, i, n). \<not> (i = pid \<and> Some d = allocated_opd p)" "queues db"]
      by (simp add: placements_def placed_def)
  qed
  have fin: "placements db' = filter (\<lambda>(d, i, n). i \<noteq> pid) (placements db)"
    if "end_patient_visit db pid now = Inr db'" for pid now db'
  proof -
    have "queues db' = filter (\<lambda>q. patient_id q \<noteq> pid) (queues db)"
      using that by (auto simp add: end_patient_visit_def split: option.splits)
    then show ?thesis
      using placements_filter [of "\<lambda>(d, i, n). i \<noteq> pid" "queues db"]
      by (simp add: placements_def placed_def)
  qed
  have step: "subseq (positions db' d) (positions db d) \<or>
            positions db' d = positions db d @
              [(if positions db d = [] then 0 else Max (set (positions db d))) + 1]"
    if "handle ov db r = Inr db'" for r db' d
    using handle_positions [OF that, of d] by (simp add: max_position_eq)
  have alloc: "n = (if positions db opd = [] then 0 else Max (set (positions db opd))) + 1 \<and>
            placements db' = placements db @ [(opd, pid, n)] \<and>
            positions db' opd = positions db opd @ [n]"
    if "allocate_opd ov db pid opd = Inr (db', n)" for pid opd db' n
    using that max_position_eq [of db opd]
    by (auto simp add: allocate_opd_def positions_def queue_of_def placements_def placed_def
        Let_def split: option.splits)
  have ref: "positions db' to = positions db to @
              [(if positions db to = [] then 0 else Max (set (positions db to))) + 1]"
    if "refer_patient ov db pid to = Inr db'" and "entries_of db pid to = []" for pid to db'
    using refer_patient_appends [OF that] by (simp add: max_position_eq)
  have c1: "\<forall>d. sorted_wrt (<) (positions db d) \<and> distinct (positions db d)"
    using inc dist by blast
  have c2: "\<forall>r db'. handle ov db r = Inr db' \<longrightarrow>
            subseq (placements db') (placements db) \<or>
            (\<exists>pid d. placements db' = placements db @
               [(d, pid, (if positions db d = [] then 0 else Max (set (positions db d))) + 1)])"
    using place by blast
  have c3: "\<forall>pid p nts now now_q db'.
            find_patient db pid = Some p \<and>
            update_patient_status db pid COMPLETED nts now now_q = Inr db' \<longrightarrow>
            placements db'
            = filter (\<lambda>(d, i, n). \<not> (i = pid \<and> Some d = allocated_opd p)) (placements db)"
    using del by blast
  have c4: "\<forall>pid now db'. end_patient_visit db pid now = Inr db' \<longrightarrow>
            placements db' = filter (\<lambda>(d, i, n). i \<noteq> pid) (placements db)"
    using fin by blast
  have c5: "\<forall>r db' d. handle ov db r = Inr db' \<longrightarrow>
            subseq (positions db' d) (positions db d) \<or>
            positions db' d = positions db d @
              [(if positions db d = [] then 0 else Max (set (positions db d))) + 1]"
    using step by blast
  have c6: "\<forall>pid opd db' n. allocate_opd ov db pid opd = Inr (db', n) \<longrightarrow>
            n = (if positions db opd = [] then 0 else Max (set (positions db opd))) + 1 \<and>
            placements db' = placements db @ [(opd, pid, n)] \<and>
            positions db' opd = positions db opd @ [n]"
    using alloc by blast
  have c7: "\<forall>pid to db'. refer_patient ov db pid to = Inr db' \<and> entries_of db pid to = [] \<longrightarrow>
            positions db' to = positions db to @
              [(if positions db to = [] then 0 else Max (set (positions db to))) + 1]"
    using ref by blast
  show ?thesis
    by (intro conjI) (fact c1 c2 c3 c4 c5 c6 c7)+
qed

text \<open>
  Asha and Ravi are allocated to eye at positions 1 and 2. Asha's completion deletes
  her row and leaves Ravi at position 2; allocated again, Asha gets position 3, and
  position 1 stays free.
\<close>

theorem positions_increasing_in_queue_witness:
  "\<exists>db p. run dept_value empty_db
            [Register ''20260101'' 100 asha, Register ''20260101'' 101 ravi,
             Allocate 1 EYE, Allocate 2 EYE] = Inr db \<and>
      placements db = [(EYE, 1, 1), (EYE, 2, 2)] \<and>
      find_patient db 1 = Some p \<and> allocated_opd p = Some EYE \<and>
      (\<exists>db'. update_patient_status db 1 COMPLETED None 200 201 = Inr db' \<and>
         run dept_value empty_db
            [Register ''20260101'' 100 asha, Register ''20260101'' 101 ravi,
             Allocate 1 EYE, Allocate 2 EYE, SetStatus 1 COMPLETED None 200 201] = Inr db' \<and>
         placements db' = [(EYE, 2, 2)] \<and>
         (\<exists>db''. allocate_opd dept_value db' 1 EYE = Inr (db'', 3) \<and>
            placements db'' = [(EYE, 2, 2), (EYE, 1, 3)] \<and>
            sorted_wrt (<) (positions db'' EYE)))"
proof -
  let ?rs = "[Register ''20260101'' 100 asha, Register ''20260101'' 101 ravi,
              Allocate 1 EYE, Allocate 2 EYE :: dept request]"
  have c: "case run dept_value empty_db ?rs of
             Inl e \<Rightarrow> False
           | Inr db \<Rightarrow>
               placements db = [(EYE, 1, 1), (EYE, 2, 2)] \<and>
               map_option allocated_opd (find_patient db 1) = Some (Some EYE) \<and>
               (case update_patient_status db 1 COMPLETED None 200 201 of
                  Inl e \<Rightarrow> False
                | Inr db' \<Rightarrow>
                    positions db' EYE = [2] \<and>
                    (case allocate_opd dept_value db' 1 EYE of
                       Inl e \<Rightarrow> False
                     | Inr (db'', n) \<Rightarrow> positions db'' EYE = [2, 3]))"
    by code_simp
  then obtain db where r: "run dept_value empty_db ?rs = Inr db"
    and pl: "placements db = [(EYE, 1, 1), (EYE, 2, 2)]"
    and fp: "map_option allocated_opd (find_patient db 1) = Some (Some EYE)"
    and c1: "case update_patient_status db 1 COMPLETED None 200 201 of
                  Inl e \<Rightarrow> False
                | Inr db' \<Rightarrow>
                    positions db' EYE = [2] \<and>
                    (case allocate_opd dept_value db' 1 EYE of
                       Inl e \<Rightarrow> False
                     | Inr (db'', n) \<Rightarrow> positions db'' EYE = [2, 3])"
    by (cases "run dept_value empty_db ?rs") auto
  from fp obtain p where p: "find_patient db 1 = Some p" "allocated_opd p = Some EYE"
    by (cases "find_patient db 1") auto
  from c1 obtain db' where u: "update_patient_status db 1 COMPLETED None 200 201 = Inr db'"
    and ps': "positions db' EYE = [2]"
    and c2: "case allocate_opd dept_value db' 1 EYE of
                       Inl e \<Rightarrow> False
                     | Inr (db'', n) \<Rightarrow> positions db'' EYE = [2, 3]"
    by (cases "update_patient_status db 1 COMPLETED None 200 201") auto
  from c2 obtain db'' n where a: "allocate_opd dept_value db' 1 EYE = Inr (db'', n)"
    and ps'': "positions db'' EYE = [2, 3]"
    by (cases "allocate_opd dept_value db' 1 EYE") auto
  have "run dept_value db [SetStatus 1 COMPLETED None 200 201] = Inr db'"
    using u by simp
  then have r': "run dept_value empty_db (?rs @ [SetStatus 1 COMPLETED None 200 201]) = Inr db'"
    by (simp only: run_append r sum.case)
  have "placements db' = filter (\<lambda>(d, i, n). \<not> (i = 1 \<and> Some d = allocated_opd p)) (placements db)"
    using positions_increasing_in_queue [OF r] p(1) u by blast
  then have pl': "placements db' = [(EYE, 2, 2)]"
    using pl p(2) by simp
  have "n = (if positions db' EYE = [] then 0 else Max (set (positions db' EYE))) + 1"
    and "placements db'' = placements db' @ [(EYE, 1, n)]"
    using positions_increasing_in_queue [OF r'] a by blast+
  then have n: "n = 3" and pl'': "placements db'' = [(EYE, 2, 2), (EYE, 1, 3)]"
    using ps' pl' by simp_all
  have r'': "run dept_value empty_db
            [Register ''20260101'' 100 asha, Register ''20260101'' 101 ravi,
             Allocate 1 EYE, Allocate 2 EYE, SetStatus 1 COMPLETED None 200 201] = Inr db'"
    using r' by (simp only: append.simps)
  have s: "sorted_wrt (<) (positions db'' EYE)"
    using ps'' by simp
  have a3: "allocate_opd dept_value db' 1 EYE = Inr (db'', 3)"
    using a n by (simp only:)
  show ?thesis
    by (intro exI [of _ db] exI [of _ p] conjI exI [of _ db'] exI [of _ db''])
       (fact r pl p u r'' pl' a3 pl'' s)+
qed

text \<open>
  Over the entries ever created the positions are not unique. Asha is allocated to
  eye at position 1 and completed through the status update, which deletes the entry;
  Ravi, allocated to eye next, gets position 1 again.
\<close>

theorem positions_increasing_in_queue_counterexample:
  "case run dept_value empty_db
          [Register ''20260101'' 100 asha, Register ''20260101'' 101 ravi] of
     Inl e \<Rightarrow> False
   | Inr db0 \<Rightarrow>
       (case allocate_opd dept_value db0 1 EYE of
          Inl e \<Rightarrow> False
        | Inr (db1, n1) \<Rightarrow>
            n1 = 1 \<and>
            (case update_patient_status db1 1 COMPLETED None 200 201 of
               Inl e \<Rightarrow> False
             | Inr db2 \<Rightarrow>
                 (case allocate_opd dept_value db2 2 EYE of
                    Inl e \<Rightarrow> False
                  | Inr (db3, n2) \<Rightarrow> n2 = 1 \<and> positions db3 EYE = [1])))"
  by code_simp

section \<open>Token numbers\<close>

subsection \<open>Digits\<close>

lemma below_ten: "d < 10 \<Longrightarrow> d \<in> {0, 1, 2, 3, 4, 5, 6, 7, 8, 9 :: nat}"
  by auto

lemma digit_char_props:
  assumes "d < 10"
  shows "is_digit (digit_char d)" and "digit_val (digit_char d) = d"
  using below_ten [OF assms] by (auto simp add: is_digit_def digit_char_def digit_val_def)

lemma is_digit_plain:
  assumes "is_digit c"
  shows "c \<noteq> CHR ''-''" and "c \<noteq> CHR ''+''" and "c \<noteq> CHR ''_''" and "\<not> is_space c"
  using assms by (auto simp add: is_digit_def is_space_def)

lemma dec_digits_digits: "list_all is_digit (dec_digits n)"
proof (induction n rule: dec_digits.induct)
  case (1 n)
  show ?case
  proof (cases "n < 10")
    case True
    then show ?thesis by (subst dec_digits.simps) (simp add: digit_char_props)
  next
    case False
    then show ?thesis using 1 by (subst dec_digits.simps) (simp add: digit_char_props)
  qed
qed

lemma dec_digits_nonempty: "dec_digits n \<noteq> []"
  by (subst dec_digits.simps) simp

lemma digits_val_snoc: "digits_val (s @ [c]) = digits_val s * 10 + digit_val c"
  by (simp add: digits_val_def)

lemma digits_val_dec_digits: "digits_val (dec_digits n) = n"
proof (induction n rule: dec_digits.induct)
  case (1 n)
  show ?case
  proof (cases "n < 10")
    case True
    then show ?thesis
      by (subst dec_digits.simps) (simp add: digits_val_def digit_char_props)
  next
    case False
    then have "digits_val (dec_digits n) = digits_val (dec_digits (n div 10)) * 10 + digit_val (digit_char (n mod 10))"
      by (subst dec_digits.simps) (simp add: digits_val_snoc)
    then show ?thesis using 1 False by (simp add: digit_char_props)
  qed
qed

lemma digits_val_zeros: "digits_val (replicate k (CHR ''0'') @ s) = digits_val s"
proof -
  have "fold (\<lambda>c acc. acc * 10 + digit_val c) (replicate k (CHR ''0'')) 0 = 0"
    by (induction k) (simp_all add: digit_val_def)
  then show ?thesis by (simp add: digits_val_def)
qed

lemma format_04d_digits:
  assumes "0 \<le> n"
  shows "list_all is_digit (format_04d n)"
proof -
  have "is_digit (CHR ''0'')" by (simp add: is_digit_def)
  then have "list_all is_digit (replicate k (CHR ''0''))" for k
    by (simp add: list_all_iff)
  then show ?thesis
    using assms dec_digits_digits by (simp add: format_04d_def zfill_def)
qed

lemma format_04d_nonempty: "format_04d n \<noteq> []"
  by (simp add: format_04d_def zfill_def dec_digits_nonempty)

lemma digits_val_format_04d: "0 \<le> n \<Longrightarrow> int (digits_val (format_04d n)) = n"
  by (simp add: format_04d_def zfill_def digits_val_zeros digits_val_dec_digits)

subsection \<open>Parsing\<close>

lemma grouped_digits: "s \<noteq> [] \<Longrightarrow> list_all is_digit s \<Longrightarrow> grouped s"
  by (induction s rule: grouped.induct) (auto simp add: is_digit_plain)

lemma strip_digits:
  assumes "s \<noteq> []" and "list_all is_digit s"
  shows "strip s = s"
proof -
  have a: "\<not> is_space (hd s)" using assms by (cases s) (auto simp add: is_digit_plain)
  have b: "\<not> is_space (last s)"
    using assms by (auto simp add: list_all_iff is_digit_plain)
  have "dropWhile is_space s = s" using a assms(1) by (cases s) auto
  moreover have "dropWhile is_space (rev s) = rev s"
    using b assms(1) by (cases "rev s") (auto simp add: last_rev hd_rev dest: arg_cong [of _ _ hd])
  ultimately show ?thesis by (simp add: strip_def)
qed

lemma py_int_digits:
  assumes "s \<noteq> []" and "list_all is_digit s"
  shows "py_int s = Some (int (digits_val s))"
proof -
  obtain c r where s: "s = c # r" using assms(1) by (cases s) auto
  have c: "c \<noteq> CHR ''-''" "c \<noteq> CHR ''+''" using assms(2) s by (auto simp add: is_digit_plain)
  have f: "filter (\<lambda>c. c \<noteq> CHR ''_'') s = s"
    using assms(2) by (auto simp add: list_all_iff is_digit_plain intro: filter_True)
  show ?thesis
    using strip_digits [OF assms] grouped_digits [OF assms] c f
    by (simp add: py_int_def int_body_def s)
qed

lemma py_int_format_04d: "0 \<le> n \<Longrightarrow> py_int (format_04d n) = Some n"
  using py_int_digits [OF format_04d_nonempty format_04d_digits, of n] digits_val_format_04d [of n]
  by simp

subsection \<open>Splitting\<close>

lemma split_char_nonempty: "split_char c s \<noteq> []"
  by (induction s) (auto split: list.splits)

lemma split_char_none: "c \<notin> set s \<Longrightarrow> split_char c s = [s]"
  by (induction s) auto

lemma length_split_char: "length (split_char c s) = Suc (length (filter (\<lambda>x. x = c) s))"
  by (induction s) (auto split: list.splits)

lemma last_split_char: "c \<notin> set s \<Longrightarrow> last (split_char c (a @ c # s)) = s"
proof (induction a)
  case Nil
  then show ?case by (simp add: split_char_none)
next
  case (Cons x a)
  show ?case
  proof (cases "x = c")
    case True
    then show ?thesis using Cons by (simp add: split_char_nonempty)
  next
    case False
    obtain y ys where sp: "split_char c (a @ c # s) = y # ys"
      using split_char_nonempty [of c "a @ c # s"] by (cases "split_char c (a @ c # s)") auto
    have "ys \<noteq> []"
      using length_split_char [of c "a @ c # s"] sp by auto
    then show ?thesis using Cons False sp by simp
  qed
qed

subsection \<open>The tokens of a table the allocator filled\<close>

lemma token_seq_issued: "0 \<le> n \<Longrightarrow> token_seq (d @ ''-'' @ format_04d n) = n"
proof -
  assume n: "0 \<le> n"
  have "CHR ''-'' \<notin> set (format_04d n)"
    using format_04d_digits [OF n] by (auto simp add: list_all_iff dest: is_digit_plain(1))
  then have "last (split_char (CHR ''-'') (d @ CHR ''-'' # format_04d n)) = format_04d n"
    by (rule last_split_char)
  then show ?thesis by (simp add: token_seq_def py_int_format_04d [OF n])
qed

lemma day_of_prefix:
  assumes "valid_day today" and "valid_day d" and "prefix today (d @ s)"
  shows "today = d"
proof -
  from assms(3) obtain r where "d @ s = today @ r" by (auto simp add: prefix_def)
  moreover have "length today = length d" using assms by (simp add: valid_day_def)
  ultimately show ?thesis by (metis append_eq_append_conv)
qed

lemma issued_rev_newest:
  assumes "issued_rev L" and "valid_day today" and "filter (prefix today) L = t # r"
  shows "t = today @ ''-'' @ format_04d (int (length (t # r)))"
  using assms
proof (induction L arbitrary: t r)
  case Nil
  then show ?case by simp
next
  case (Cons x older)
  show ?case
  proof (cases "prefix today x")
    case True
    have x: "x = take 8 x @ ''-'' @ format_04d (int (length (filter (prefix (take 8 x)) older)) + 1)"
      and v: "valid_day (take 8 x)"
      using Cons.prems(1) by simp_all
    have d: "take 8 x = today"
      using day_of_prefix [OF Cons.prems(2) v, of "drop 8 x"] True by simp
    have tr: "t = x" "r = filter (prefix today) older"
      using Cons.prems(3) True by simp_all
    have "int (length (filter (prefix today) older)) + 1 = int (length (t # r))"
      by (simp add: tr)
    then have "x = today @ ''-'' @ format_04d (int (length (t # r)))"
      using x unfolding d by (simp only:)
    then show ?thesis by (simp only: tr(1))
  next
    case False
    then show ?thesis using Cons by simp
  qed
qed

lemma issued_rev_highest:
  assumes "issued_rev L" and "valid_day today"
  shows "Max (insert 0 (set (map token_seq (filter (prefix today) L))))
         = int (length (filter (prefix today) L))"
  using assms
proof (induction L)
  case Nil
  then show ?case by simp
next
  case (Cons x older)
  show ?case
  proof (cases "prefix today x")
    case True
    obtain r where f: "filter (prefix today) (x # older) = x # r" and r: "r = filter (prefix today) older"
      using True by simp
    have "x = today @ ''-'' @ format_04d (int (length (x # r)))"
      by (rule issued_rev_newest [OF Cons.prems f])
    then have "token_seq x = int (length (x # r))"
      using token_seq_issued [of "int (length (x # r))" today] by simp
    moreover have "Max (insert 0 (set (map token_seq r))) = int (length r)"
      using Cons r by simp
    ultimately show ?thesis
      using f by (simp add: insert_commute [of 0])
  next
    case False
    then show ?thesis using Cons by simp
  qed
qed

lemma first_id_desc_last:
  assumes "sorted_wrt (<) (map p_id ps)" and "ps \<noteq> []"
  shows "first_id_desc ps = Some (last ps)"
proof -
  have "fold (\<lambda>x best. if p_id best < p_id x then x else best) r p = last (p # r)"
    if "sorted_wrt (<) (map p_id (p # r))" for p :: "'a Patient" and r
    using that by (induction r arbitrary: p) auto
  then show ?thesis using assms by (cases ps) (simp_all add: first_id_desc_def)
qed

lemma fold_max_eq: "fold max xs (a::int) = Max (insert a (set xs))"
  using Max.set_eq_fold [of a xs] by simp

lemma highest_seq_inv:
  assumes "token_inv db" and "valid_day today"
  shows "highest_seq db today
         = int (length (filter (prefix today) (map token_number (patients db))))"
proof -
  let ?toks = "map token_number (patients db)"
  have "highest_seq db today = Max (insert 0 (set (map token_seq (filter (prefix today) (rev ?toks)))))"
    by (simp add: highest_seq_def fold_max_eq)
  also have "\<dots> = int (length (filter (prefix today) (rev ?toks)))"
    using assms by (intro issued_rev_highest) (simp_all add: token_inv_def)
  finally show ?thesis by (simp flip: rev_filter)
qed

lemma generate_token_number_inv:
  assumes "token_inv db" and "valid_day today"
  shows "generate_token_number db today = Inr (next_token_spec db today)"
proof -
  let ?toks = "map token_number (patients db)"
  let ?F = "filter (\<lambda>p. prefix today (token_number p)) (patients db)"
  have mF: "map token_number ?F = filter (prefix today) ?toks"
    by (simp add: filter_map o_def)
  have hs: "highest_seq db today = int (length (filter (prefix today) ?toks))"
    by (rule highest_seq_inv [OF assms])
  show ?thesis
  proof (cases "?F = []")
    case True
    then have "filter (prefix today) ?toks = []" using mF by simp
    then show ?thesis
      using True hs by (simp add: generate_token_number_def first_id_desc_def next_token_spec_def)
  next
    case False
    have "sorted_wrt (<) (map p_id ?F)"
      using assms(1) by (simp add: token_inv_def sorted_wrt_map sorted_wrt_filter)
    then have fd: "first_id_desc ?F = Some (last ?F)"
      using False by (rule first_id_desc_last)
    have ne: "filter (prefix today) (rev ?toks) \<noteq> []"
      using False mF by (metis Nil_is_map_conv rev_filter rev_is_Nil_conv)
    then obtain t r where tr: "filter (prefix today) (rev ?toks) = t # r"
      by (cases "filter (prefix today) (rev ?toks)") auto
    have t: "t = today @ ''-'' @ format_04d (int (length (t # r)))"
      using assms tr by (intro issued_rev_newest) (simp_all add: token_inv_def)
    have "token_number (last ?F) = last (map token_number ?F)"
      using False by (simp add: last_map)
    also have "\<dots> = hd (rev (filter (prefix today) ?toks))"
      using False mF by (simp add: hd_rev)
    also have "\<dots> = t" using tr by (simp add: rev_filter)
    finally have tok: "token_number (last ?F) = t" .
    have len: "int (length (t # r)) = highest_seq db today"
      using hs tr by (metis length_rev rev_filter)
    have "token_seq t = int (length (t # r))"
      using token_seq_issued [of "int (length (t # r))" today] t by simp
    moreover have "py_int (last (split_char (CHR ''-'') t)) \<noteq> None"
    proof -
      have "CHR ''-'' \<notin> set (format_04d (int (length (t # r))))"
        using format_04d_digits [of "int (length (t # r))"]
        by (auto simp add: list_all_iff dest: is_digit_plain(1))
      then have "last (split_char (CHR ''-'') (today @ CHR ''-'' # format_04d (int (length (t # r)))))
                 = format_04d (int (length (t # r)))"
        by (rule last_split_char)
      then show ?thesis using t py_int_format_04d [of "int (length (t # r))"] by simp
    qed
    ultimately obtain n where "py_int (last (split_char (CHR ''-'') t)) = Some n"
      and "n = highest_seq db today"
      using len by (auto simp add: token_seq_def split: option.splits)
    then show ?thesis
      using fd tok by (simp add: generate_token_number_def next_token_spec_def)
  qed
qed

lemma next_id_above: "x \<in> set (map p_id ps) \<Longrightarrow> x < next_id ps"
proof -
  assume "x \<in> set (map p_id ps)"
  then have "x \<le> Max (insert 0 (set (map p_id ps)))" by (intro Max_ge) simp_all
  then show ?thesis by (simp add: next_id_def fold_max_eq)
qed

lemma register_patient_inv:
  assumes "token_inv db" and "valid_day today"
  shows "\<exists>db' p. register_patient db today now pd = Inr (db', p) \<and>
           token_number p = next_token_spec db today \<and>
           patients db' = patients db @ [p] \<and> token_inv db'"
proof -
  let ?toks = "map token_number (patients db)"
  let ?t = "next_token_spec db today"
  let ?p = "new_patient (next_id (patients db)) ?t pd now :: 'a Patient"
  have t8: "take 8 ?t = today"
    using assms(2) by (simp add: next_token_spec_def valid_day_def)
  have "?t = today @ ''-'' @ format_04d (int (length (filter (prefix today) (rev ?toks))) + 1)"
    using highest_seq_inv [OF assms] by (simp add: next_token_spec_def flip: rev_filter)
  then have iss: "issued_rev (?t # rev ?toks)"
    using assms t8 by (simp add: token_inv_def)
  have srt: "sorted_wrt (<) (map p_id (patients db) @ [next_id (patients db)])"
    using assms(1) next_id_above [of _ "patients db"]
    by (auto simp add: token_inv_def sorted_wrt_append)
  have "token_inv (db\<lparr>patients := patients db @ [?p], flows := fl\<rparr>)" for fl
    using iss srt by (simp add: token_inv_def new_patient_def)
  then show ?thesis
    using generate_token_number_inv [OF assms]
    by (simp add: register_patient_def Let_def new_patient_def)
qed

lemma update_patient_keeps:
  assumes "\<And>p. p_id (g p) = p_id p" and "\<And>p. token_number (g p) = token_number p"
  shows "map p_id (update_patient i g ps) = map p_id ps"
    and "map token_number (update_patient i g ps) = map token_number ps"
  using assms by (induction ps) (simp_all add: update_patient_def)

lemma handle_token_inv:
  assumes "token_inv db" and "wf_request r" and "handle ov db r = Inr db'"
  shows "token_inv db'"
proof (cases r)
  case (Register today now pd)
  then show ?thesis
    using assms register_patient_inv [of db today now pd] by auto
next
  case (Allocate pid opd)
  then show ?thesis
    using assms
    by (auto simp add: allocate_opd_def token_inv_def update_patient_keeps Let_def
        split: option.splits)
next
  case (SetStatus pid status nts now now_q)
  then show ?thesis
    using assms
    by (auto simp add: update_patient_status_def token_inv_def update_patient_keeps Let_def
        split: option.splits)
next
  case (Refer pid to)
  then show ?thesis
    using assms
    by (auto simp add: refer_patient_def token_inv_def update_patient_keeps Let_def
        split: option.splits)
next
  case (EndVisit pid now)
  then show ?thesis
    using assms
    by (auto simp add: end_patient_visit_def token_inv_def update_patient_keeps Let_def
        split: option.splits)
qed

lemma run_token_inv:
  assumes "token_inv db" and "list_all wf_request rs" and "run ov db rs = Inr db'"
  shows "token_inv db'"
  using assms
proof (induction rs arbitrary: db)
  case Nil
  then show ?case by simp
next
  case (Cons r rs)
  from Cons.prems(3) obtain db1 where h: "handle ov db r = Inr db1" and r: "run ov db1 rs = Inr db'"
    by (cases "handle ov db r") simp_all
  have "token_inv db1" using handle_token_inv [OF Cons.prems(1) _ h] Cons.prems(2) by simp
  then show ?case using Cons.IH [OF _ _ r] Cons.prems(2) by simp
qed

lemma token_inv_empty: "token_inv empty_db"
  by (simp add: token_inv_def empty_db_def)

lemma issued_rev_append: "issued_rev (a @ b) \<Longrightarrow> issued_rev b"
  by (induction a) simp_all

lemma issued_rev_nth:
  assumes "issued_rev (rev toks)" and "i < length toks"
  shows "valid_day (take 8 (toks ! i)) \<and>
         toks ! i = take 8 (toks ! i) @ ''-'' @
           format_04d (int (length (filter (prefix (take 8 (toks ! i))) (take i toks))) + 1)"
proof -
  have "rev toks = rev (drop (Suc i) toks) @ (toks ! i # rev (take i toks))"
    using id_take_nth_drop [OF assms(2)] by (metis append.assoc append_Cons append_Nil rev.simps(2) rev_append)
  then have "issued_rev (toks ! i # rev (take i toks))"
    using assms(1) issued_rev_append by metis
  then show ?thesis by (simp flip: rev_filter)
qed

lemma filter_take_mono:
  assumes "m \<le> n"
  shows "length (filter P (take m xs)) \<le> length (filter P (take n xs))"
proof -
  have "take n xs = take m xs @ drop m (take n xs)"
    using assms by (metis append_take_drop_id min.absorb1 take_take)
  then have "filter P (take n xs) = filter P (take m xs) @ filter P (drop m (take n xs))"
    by (metis filter_append)
  then show ?thesis by simp
qed

lemma issued_increasing:
  assumes "issued_rev (rev toks)" and "i < j" and "j < length toks" and "valid_day d"
    and "prefix d (toks ! i)" and "prefix d (toks ! j)"
  shows "token_seq (toks ! i) < token_seq (toks ! j)"
proof -
  have i: "i < length toks" using assms(2,3) by simp
  let ?c = "\<lambda>k. int (length (filter (prefix d) (take k toks)))"
  have day: "take 8 (toks ! k) = d" if "k < length toks" and "prefix d (toks ! k)" for k
  proof -
    from issued_rev_nth [OF assms(1) that(1)]
    have "valid_day (take 8 (toks ! k))" by simp
    from day_of_prefix [OF assms(4) this, of "drop 8 (toks ! k)"] that(2)
    show ?thesis by simp
  qed
  have seq: "token_seq (toks ! k) = ?c k + 1" if "k < length toks" and "prefix d (toks ! k)" for k
  proof -
    from issued_rev_nth [OF assms(1) that(1)] day [OF that]
    have "toks ! k = d @ ''-'' @ format_04d (?c k + 1)" by simp
    then show ?thesis using token_seq_issued [of "?c k + 1" d] by simp
  qed
  have "take (Suc i) toks = take i toks @ [toks ! i]"
    using i by (rule take_Suc_conv_app_nth)
  then have "?c (Suc i) = ?c i + 1" using assms(5) by simp
  moreover have "?c (Suc i) \<le> ?c j"
    using filter_take_mono [of "Suc i" j "prefix d" toks] assms(2) by simp
  ultimately show ?thesis
    using seq [OF i assms(5)] seq [OF assms(3,6)] by simp
qed

lemma length_dec_digits: "n < 10 ^ k \<Longrightarrow> 0 < k \<Longrightarrow> length (dec_digits n) \<le> k"
proof (induction n arbitrary: k rule: dec_digits.induct)
  case (1 n)
  show ?case
  proof (cases "n < 10")
    case True
    then show ?thesis using "1.prems" by (subst dec_digits.simps) simp
  next
    case False
    then obtain k' where k: "k = Suc k'" using "1.prems" by (cases k) auto
    have "0 < k'" using False "1.prems" k by (cases k') auto
    moreover have "n div 10 < 10 ^ k'" using "1.prems" k by (simp add: less_mult_imp_div_less)
    ultimately have "length (dec_digits (n div 10)) \<le> k'" using "1.IH" False by simp
    then show ?thesis using False k by (subst dec_digits.simps) simp
  qed
qed

lemma format_04d_width:
  assumes "0 \<le> n"
  shows "4 \<le> length (format_04d n)" and "n < 10000 \<Longrightarrow> length (format_04d n) = 4"
proof -
  show "4 \<le> length (format_04d n)"
    using assms by (simp add: format_04d_def zfill_def)
  assume "n < 10000"
  then have "nat n < 10 ^ 4" using assms by simp
  then have "length (dec_digits (nat n)) \<le> 4" by (rule length_dec_digits) simp
  then show "length (format_04d n) = 4"
    using assms by (simp add: format_04d_def zfill_def)
qed

text \<open>
  Claim C3. Take any state that requests reach from the empty database, the dates of
  the registrations being of eight digits, and any such date \<open>today\<close>. Then
  \<^verbatim>\<open>generate_token_number\<close> returns, and its token is \<open>today\<close>, a dash, and one more
  than the highest number among the tokens of \<open>today\<close>, written with \<^verbatim>\<open>04d\<close>; it is
  0001 when no token of \<open>today\<close> exists, whatever the tokens of other days are. A
  registration succeeds and issues that token. Every token in the table is a date,
  a dash and one more than the number of earlier tokens of that date, so the numbers
  of the tokens of one day are strictly increasing in the order of registration. The
  format \<^verbatim>\<open>04d\<close> of a number from 0 on gives digits only, at least four of them and
  exactly four below 10000, and \<^verbatim>\<open>int()\<close> reads the number back.
\<close>

theorem token_numbers_issued:
  assumes "list_all wf_request rs" and "run ov empty_db rs = Inr db" and "valid_day today"
  shows "generate_token_number db today = Inr (next_token_spec db today) \<and>
         (filter (prefix today) (map token_number (patients db)) = []
            \<longrightarrow> next_token_spec db today = today @ ''-0001'') \<and>
         (\<forall>now pd. \<exists>db' p. register_patient db today now pd = Inr (db', p) \<and>
            token_number p = next_token_spec db today \<and> patients db' = patients db @ [p]) \<and>
         (\<forall>i<length (patients db). \<exists>d. valid_day d \<and>
            token_number (patients db ! i) = d @ ''-'' @
              format_04d (int (length (filter (prefix d)
                                (take i (map token_number (patients db))))) + 1)) \<and>
         (\<forall>i j d. i < j \<and> j < length (patients db) \<and> valid_day d \<and>
            prefix d (token_number (patients db ! i)) \<and>
            prefix d (token_number (patients db ! j)) \<longrightarrow>
            token_seq (token_number (patients db ! i))
            < token_seq (token_number (patients db ! j))) \<and>
         (\<forall>n. 0 \<le> n \<longrightarrow> list_all is_digit (format_04d n) \<and> 4 \<le> length (format_04d n) \<and>
            (n < 10000 \<longrightarrow> length (format_04d n) = 4) \<and> py_int (format_04d n) = Some n)"
proof -
  let ?toks = "map token_number (patients db)"
  have inv: "token_inv db"
    by (rule run_token_inv [OF token_inv_empty assms(1,2)])
  then have iss: "issued_rev (rev ?toks)" by (simp add: token_inv_def)
  have gen: "generate_token_number db today = Inr (next_token_spec db today)"
    by (rule generate_token_number_inv [OF inv assms(3)])
  have fst: "next_token_spec db today = today @ ''-0001''"
    if "filter (prefix today) ?toks = []"
  proof -
    have "format_04d 1 = ''0001''" by code_simp
    then show ?thesis
      using that highest_seq_inv [OF inv assms(3)] by (simp add: next_token_spec_def)
  qed
  have reg: "\<exists>db' p. register_patient db today now pd = Inr (db', p) \<and>
            token_number p = next_token_spec db today \<and> patients db' = patients db @ [p]"
    for now pd
    using register_patient_inv [OF inv assms(3), of now pd] by blast
  have nth: "\<exists>d. valid_day d \<and>
            token_number (patients db ! i) = d @ ''-'' @
              format_04d (int (length (filter (prefix d) (take i ?toks))) + 1)"
    if "i < length (patients db)" for i
    using issued_rev_nth [OF iss, of i] that by auto
  have inc: "token_seq (token_number (patients db ! i))
            < token_seq (token_number (patients db ! j))"
    if "i < j" "j < length (patients db)" "valid_day d"
      "prefix d (token_number (patients db ! i))" "prefix d (token_number (patients db ! j))"
    for i j d
    using issued_increasing [OF iss, of i j d] that by simp
  have fmt: "list_all is_digit (format_04d n) \<and> 4 \<le> length (format_04d n) \<and>
            (n < 10000 \<longrightarrow> length (format_04d n) = 4) \<and> py_int (format_04d n) = Some n"
    if "0 \<le> n" for n
    using that format_04d_digits format_04d_width py_int_format_04d by simp
  from gen fst reg nth inc fmt show ?thesis by blast
qed

text \<open>
  Two registrations on 1 January 2026 and one on 2 January: the tokens are 0001 and
  0002 of the first day and 0001 of the second, and the next token of the second day
  is 0002.
\<close>

theorem token_numbers_issued_witness:
  "list_all wf_request
     [Register ''20260101'' 100 asha, Register ''20260101'' 101 ravi,
      Register ''20260102'' 102 asha :: dept request] \<and>
   valid_day ''20260102'' \<and>
   (\<exists>db. run dept_value empty_db
            [Register ''20260101'' 100 asha, Register ''20260101'' 101 ravi,
             Register ''20260102'' 102 asha] = Inr db \<and>
      map token_number (patients db) = [''20260101-0001'', ''20260101-0002'', ''20260102-0001''] \<and>
      generate_token_number db ''20260102'' = Inr ''20260102-0002'')"
proof -
  let ?rs = "[Register ''20260101'' 100 asha, Register ''20260101'' 101 ravi,
              Register ''20260102'' 102 asha :: dept request]"
  have h1: "list_all wf_request ?rs" by code_simp
  have h3: "valid_day ''20260102''" by code_simp
  have c: "case run dept_value empty_db ?rs of
             Inl e \<Rightarrow> False
           | Inr db \<Rightarrow> map token_number (patients db)
                        = [''20260101-0001'', ''20260101-0002'', ''20260102-0001''] \<and>
                      next_token_spec db ''20260102'' = ''20260102-0002''"
    by code_simp
  then obtain db where h2: "run dept_value empty_db ?rs = Inr db"
    and t: "map token_number (patients db) = [''20260101-0001'', ''20260101-0002'', ''20260102-0001'']"
    and n: "next_token_spec db ''20260102'' = ''20260102-0002''"
    by (cases "run dept_value empty_db ?rs") auto
  have "generate_token_number db ''20260102'' = Inr (next_token_spec db ''20260102'')"
    using token_numbers_issued [OF h1 h2 h3] by blast
  then show ?thesis using h1 h2 h3 t n by simp
qed

section \<open>Listing\<close>

lemma order_by_desc_props:
  "mset (order_by_desc k xs) = mset xs"
  "sorted_wrt (\<lambda>x y. k y \<le> k x) (order_by_desc k xs)"
proof -
  show "mset (order_by_desc k xs) = mset xs" by (simp add: order_by_desc_def)
  have "sorted (map (\<lambda>x. - k x) (sort_key (\<lambda>x. - k x) xs))" by (rule sorted_sort_key)
  then show "sorted_wrt (\<lambda>x y. k y \<le> k x) (order_by_desc k xs)"
    by (simp add: order_by_desc_def sorted_map)
qed

lemma order_by_asc_props:
  "mset (order_by_asc k xs) = mset xs"
  "sorted (map k (order_by_asc k xs))"
  by (simp_all add: order_by_asc_def)

text \<open>
  Claim C9. Let \<open>ordered\<close> be the patients that pass the status filter (all of them
  when no status is given), newest registration first. With \<^verbatim>\<open>latest\<close> set,
  \<^verbatim>\<open>get_patients\<close> returns the first five of \<open>ordered\<close>, whatever \<^verbatim>\<open>skip\<close> and \<^verbatim>\<open>limit\<close>
  are; otherwise it returns \<open>ordered\<close> after dropping \<^verbatim>\<open>skip\<close> rows and keeping
  \<^verbatim>\<open>limit\<close> rows (all of them for a negative limit, as SQLite does).
\<close>

theorem get_patients_latest_and_paged:
  "\<exists>ordered.
     mset ordered = mset (filter (\<lambda>p. status = None \<or> status = Some (current_status p)) (patients db)) \<and>
     sorted_wrt (\<lambda>p q. registration_time q \<le> registration_time p) ordered \<and>
     (\<forall>skip limit.
        get_patients db skip limit status (Some True) = take 5 ordered \<and>
        length (get_patients db skip limit status (Some True)) \<le> 5 \<and>
        get_patients db skip limit status (Some False)
          = (if limit < 0 then drop (nat skip) ordered else take (nat limit) (drop (nat skip) ordered)) \<and>
        get_patients db skip limit status None
          = (if limit < 0 then drop (nat skip) ordered else take (nat limit) (drop (nat skip) ordered)))"
proof -
  let ?m = "filter (\<lambda>p. status = None \<or> status = Some (current_status p)) (patients db)"
  have q: "(case status of Some s \<Rightarrow> filter (\<lambda>p. current_status p = s) (patients db)
            | None \<Rightarrow> patients db) = ?m"
    by (cases status) (auto intro: filter_cong)
  show ?thesis
    by (rule exI [of _ "order_by_desc registration_time ?m"])
       (simp add: order_by_desc_props get_patients_def q sql_limit_def sql_offset_def)
qed

text \<open>
  Claim C10. A value of \<^verbatim>\<open>from_opd\<close> or \<^verbatim>\<open>to_opd\<close> that is the value of no member of
  \<^verbatim>\<open>OPDType\<close> is ignored: the result is the one without that filter. With no
  filter, or invalid ones only, the patients returned are the REFERRED ones, each
  once, oldest registration first. In general they are the REFERRED patients that
  pass the valid filters, in that order.
\<close>

theorem list_referred_patients_filters:
  "(s \<notin> set (map ov opds) \<longrightarrow>
      list_referred_patients opds ov db (Some s) to_q
        = list_referred_patients opds ov db None to_q \<and>
      list_referred_patients opds ov db from_q (Some s)
        = list_referred_patients opds ov db from_q None) \<and>
   (\<exists>ordered.
      mset ordered = mset (filter (\<lambda>p. current_status p = REFERRED) (patients db)) \<and>
      sorted (map registration_time ordered) \<and>
      list_referred_patients opds ov db None None = map referred_response ordered \<and>
      (s \<notin> set (map ov opds) \<longrightarrow>
         list_referred_patients opds ov db (Some s) None = map referred_response ordered \<and>
         list_referred_patients opds ov db None (Some s) = map referred_response ordered \<and>
         list_referred_patients opds ov db (Some s) (Some s) = map referred_response ordered)) \<and>
   (\<exists>ordered.
      mset ordered = mset (filter (\<lambda>p. current_status p = REFERRED \<and>
                             (filter_given (map ov opds) from_q \<longrightarrow> referred_from p = from_q) \<and>
                             (filter_given (map ov opds) to_q \<longrightarrow> referred_to p = to_q))
                           (patients db)) \<and>
      sorted (map registration_time ordered) \<and>
      list_referred_patients opds ov db from_q to_q = map referred_response ordered)"
proof -
  have inv: "\<not> filter_given (map ov opds) (Some s)" if "s \<notin> set (map ov opds)"
    using that by (simp add: filter_given_def)
  have none: "\<not> filter_given (map ov opds) None"
    by (simp add: filter_given_def)
  have a: "list_referred_patients opds ov db (Some s) to_q
             = list_referred_patients opds ov db None to_q \<and>
           list_referred_patients opds ov db from_q (Some s)
             = list_referred_patients opds ov db from_q None"
    if "s \<notin> set (map ov opds)"
    using inv [OF that] none by (simp add: list_referred_patients_def Let_def)
  let ?r = "filter (\<lambda>p. current_status p = REFERRED) (patients db)"
  have b: "list_referred_patients opds ov db None None
           = map referred_response (order_by_asc registration_time ?r)"
    using none by (simp add: list_referred_patients_def Let_def)
  have c: "list_referred_patients opds ov db (Some s) None = map referred_response (order_by_asc registration_time ?r) \<and>
         list_referred_patients opds ov db None (Some s) = map referred_response (order_by_asc registration_time ?r) \<and>
         list_referred_patients opds ov db (Some s) (Some s) = map referred_response (order_by_asc registration_time ?r)"
    if "s \<notin> set (map ov opds)"
    using inv [OF that] none by (simp add: list_referred_patients_def Let_def)
  let ?g = "filter (\<lambda>p. current_status p = REFERRED \<and>
                             (filter_given (map ov opds) from_q \<longrightarrow> referred_from p = from_q) \<and>
                             (filter_given (map ov opds) to_q \<longrightarrow> referred_to p = to_q))
                           (patients db)"
  have d: "list_referred_patients opds ov db from_q to_q
           = map referred_response (order_by_asc registration_time ?g)"
    by (auto simp add: list_referred_patients_def Let_def conj_commute intro!: arg_cong [of _ _ "\<lambda>x. map referred_response (order_by_asc registration_time x)"] filter_cong)
  have p1: "\<exists>ordered.
      mset ordered = mset ?r \<and> sorted (map registration_time ordered) \<and>
      list_referred_patients opds ov db None None = map referred_response ordered \<and>
      (s \<notin> set (map ov opds) \<longrightarrow>
         list_referred_patients opds ov db (Some s) None = map referred_response ordered \<and>
         list_referred_patients opds ov db None (Some s) = map referred_response ordered \<and>
         list_referred_patients opds ov db (Some s) (Some s) = map referred_response ordered)"
    using b c by (intro exI [of _ "order_by_asc registration_time ?r"]) (simp add: order_by_asc_props)
  have p2: "\<exists>ordered.
      mset ordered = mset ?g \<and> sorted (map registration_time ordered) \<and>
      list_referred_patients opds ov db from_q to_q = map referred_response ordered"
    using d by (intro exI [of _ "order_by_asc registration_time ?g"]) (simp add: order_by_asc_props)
  from a p1 p2 show ?thesis by blast
qed

text \<open>
  Asha is referred from eye to ent, Ravi is only registered. The invalid value
  \<^verbatim>\<open>dental\<close> for \<^verbatim>\<open>from_opd\<close> gives the same list as no filter, with Asha in it;
  the valid value \<^verbatim>\<open>ent\<close> filters her out.
\<close>

theorem list_referred_patients_filters_witness:
  "''dental'' \<notin> set (map dept_value [EYE, ENT]) \<and>
   (\<exists>db. run dept_value empty_db
            [Register ''20260101'' 100 asha, Allocate 1 EYE, Refer 1 ENT,
             Register ''20260101'' 101 ravi] = Inr db \<and>
      list_referred_patients [EYE, ENT] dept_value db (Some ''dental'') None
        = list_referred_patients [EYE, ENT] dept_value db None None \<and>
      map r_id (list_referred_patients [EYE, ENT] dept_value db (Some ''dental'') None) = [1] \<and>
      map r_id (list_referred_patients [EYE, ENT] dept_value db (Some ''ent'') None) = [])"
proof -
  let ?rs = "[Register ''20260101'' 100 asha, Allocate 1 EYE, Refer 1 ENT,
              Register ''20260101'' 101 ravi]"
  have h: "''dental'' \<notin> set (map dept_value [EYE, ENT])" by simp
  have c: "case run dept_value empty_db ?rs of
             Inl e \<Rightarrow> False
           | Inr db \<Rightarrow>
               map r_id (list_referred_patients [EYE, ENT] dept_value db None None) = [1] \<and>
               map r_id (list_referred_patients [EYE, ENT] dept_value db (Some ''ent'') None) = []"
    by code_simp
  then obtain db where r: "run dept_value empty_db ?rs = Inr db"
    and a: "map r_id (list_referred_patients [EYE, ENT] dept_value db None None) = [1]"
    and b: "map r_id (list_referred_patients [EYE, ENT] dept_value db (Some ''ent'') None) = []"
    by (cases "run dept_value empty_db ?rs") auto
  have "list_referred_patients [EYE, ENT] dept_value db (Some ''dental'') None
        = list_referred_patients [EYE, ENT] dept_value db None None"
    using list_referred_patients_filters [of "''dental''" dept_value "[EYE, ENT]" db None] h
    by blast
  then show ?thesis using h r a b by auto
qed

text \<open>
  Six patients registered in turn: \<^verbatim>\<open>latest\<close> returns the five newest and ignores
  \<^verbatim>\<open>skip = 2\<close> and \<^verbatim>\<open>limit = 1\<close>; without \<^verbatim>\<open>latest\<close> these give the third newest; the
  status filter applies with \<^verbatim>\<open>latest\<close> too.
\<close>

lemma get_patients_six_registered:
  "case run dept_value empty_db
          [Register ''20260101'' 100 asha, Register ''20260101'' 101 ravi,
           Register ''20260101'' 102 asha, Register ''20260101'' 103 ravi,
           Register ''20260101'' 104 asha, Register ''20260101'' 105 ravi] of
     Inl e \<Rightarrow> False
   | Inr db \<Rightarrow>
       map p_id (get_patients db 2 1 None (Some True)) = [6, 5, 4, 3, 2] \<and>
       map p_id (get_patients db 2 1 None (Some False)) = [4] \<and>
       map p_id (get_patients db 0 100 (Some COMPLETED) (Some True)) = []"
  by code_simp

end
